theory Spec2Isabelle
  imports Complex_Main
begin

section \<open>FIFO cost basis of asset spends (rotkehlchen/accounting/cost\_basis.py)\<close>

text \<open>
  A shallow embedding of \<^verbatim>\<open>CostBasisCalculator\<close> and of the data classes it works on.
  Objects that the source mutates in place become values that are passed in and returned;
  the calculator itself is a record holding the per-asset ledgers, the messages handed to
  the message aggregator and the records handed to the logger. An exception of the source
  is the left injection of the result.
\<close>

subsection \<open>Types declared outside the file\<close>

text \<open>
  Modelled from the spec: the class \<^verbatim>\<open>FVal\<close> of \<^verbatim>\<open>rotkehlchen.fval\<close> is not in the file.
  It wraps a decimal number, and all arithmetic on amounts and rates is exact: an amount,
  rate or price is a rational number with exact sums, differences, products and
  comparisons, and \<^verbatim>\<open>ZERO\<close> is 0. \<^verbatim>\<open>Timestamp\<close> is a Python integer. \<^verbatim>\<open>Location\<close> is an
  enumeration of which only the printed name is used.
\<close>

type_synonym FVal = rat
type_synonym Price = rat
type_synonym Timestamp = int
type_synonym Location = string

text \<open>
  Modelled from the spec: the class \<^verbatim>\<open>Asset\<close> and the constants of
  \<^verbatim>\<open>rotkehlchen.constants.assets\<close> are not in the file. Assets are compared by identity;
  the six assets the file names are six different assets, every other asset is
  \<open>Other_asset\<close> with its identifier.
\<close>

datatype Asset = A_ETH | A_WETH | A_ETC | A_BTC | A_BCH | A_BSV | Other_asset string

text \<open>
  The fork timestamps of \<^verbatim>\<open>rotkehlchen.constants\<close> and the method \<^verbatim>\<open>Asset.is_fiat\<close>
  are not in the file either: they are parameters of the functions that read them.
\<close>

record Constants =
  ETH_DAO_FORK_TS :: Timestamp
  BTC_BCH_FORK_TS :: Timestamp
  BCH_BSV_FORK_TS :: Timestamp
  is_fiat :: "Asset \<Rightarrow> bool"

datatype AccountingEventType = PREFORK_ACQUISITION | Other_event_type string

text \<open>
  Modelled from the spec: the class \<^verbatim>\<open>ProcessedAccountingEvent\<close> is declared in another
  module. An acquisition event carries an asset, a timestamp, a location, a unit rate, a
  taxable amount, a free amount and notes; with the event type these are the fields that
  \<^verbatim>\<open>handle_prefork_asset_acquisitions\<close> passes to the constructor. The two further
  arguments there, \<^verbatim>\<open>pnl=PNL()\<close> and \<^verbatim>\<open>cost_basis=None\<close>, are fixed values that nothing
  in the file reads, and are left out.
\<close>

record ProcessedAccountingEvent =
  ev_type :: AccountingEventType
  ev_notes :: string
  ev_location :: Location
  ev_timestamp :: Timestamp
  ev_asset :: Asset
  ev_taxable_amount :: FVal
  ev_free_amount :: FVal
  ev_price :: Price

record DBSettings =
  main_currency :: Asset
  taxfree_after_period :: "int option"

subsection \<open>Data classes\<close>

record AssetAcquisitionEvent =
  event :: ProcessedAccountingEvent
  remaining_amount :: FVal

definition acq_amount :: "AssetAcquisitionEvent \<Rightarrow> FVal" where
  "acq_amount a = ev_taxable_amount (event a)"

definition acq_timestamp :: "AssetAcquisitionEvent \<Rightarrow> Timestamp" where
  "acq_timestamp a = ev_timestamp (event a)"

definition acq_rate :: "AssetAcquisitionEvent \<Rightarrow> Price" where
  "acq_rate a = ev_price (event a)"

text \<open>The constructor with \<^verbatim>\<open>__post_init__\<close>: the remaining amount starts as the amount.\<close>

definition new_AssetAcquisitionEvent :: "ProcessedAccountingEvent \<Rightarrow> AssetAcquisitionEvent" where
  "new_AssetAcquisitionEvent e = \<lparr>event = e, remaining_amount = ev_taxable_amount e\<rparr>"

record AssetSpendEvent =
  spend_timestamp :: Timestamp
  spend_location :: Location
  spend_amount :: FVal
  spend_rate :: FVal

record CostBasisEvents =
  used_acquisitions :: "AssetAcquisitionEvent list"
  acquisitions :: "AssetAcquisitionEvent list"
  spends :: "AssetSpendEvent list"

definition new_CostBasisEvents :: CostBasisEvents where
  "new_CostBasisEvents = \<lparr>used_acquisitions = [], acquisitions = [], spends = []\<rparr>"

text \<open>
  In the source \<^verbatim>\<open>MatchedAcquisition.event\<close> is a reference to the lot object, and the
  call writes to that object after it has made the entry: line 445 sets the remaining
  amount of a lot that is used up to zero, line 472 sets that of the lot at which the scan
  stopped to what is left of it. The caller sees these writes through the entry. The entry
  of the model holds the lot as it is when the call returns.
\<close>

record MatchedAcquisition =
  m_amount :: FVal
  m_event :: AssetAcquisitionEvent

record CostBasisInfo =
  taxable_amount :: FVal
  taxable_bought_cost :: FVal
  taxfree_bought_cost :: FVal
  matched_acquisitions :: "MatchedAcquisition list"
  is_complete :: bool

subsection \<open>The calculator\<close>

text \<open>
  The message aggregator and the logger are collaborators outside the file. The model
  keeps what is handed to them: the two kinds of error message with the values they are
  formatted from, and the log records with their keyword arguments. Formatting a message
  (\<^verbatim>\<open>timestamp_to_date\<close> of the mixin, the printed form of an amount or an asset) and the
  calls \<^verbatim>\<open>add_error\<close>, \<^verbatim>\<open>log.debug\<close> and \<^verbatim>\<open>log.critical\<close> are taken to return normally.
\<close>

datatype UserMessage =
    No_documented_acquisition Asset Timestamp
  | Not_enough_documented_acquisitions Asset Timestamp FVal "FVal option"

datatype LogRecord =
    Debug_uses_up_part string FVal FVal Asset Price Asset Timestamp
  | Debug_uses_up_entire string FVal Asset Price Asset Timestamp
  | Critical_no_documented_buy Asset Timestamp

datatype error = UnboundLocalError | IndexError

record CostBasisCalculator =
  settings :: DBSettings
  profit_currency :: Asset
  events :: "Asset \<rightharpoonup> CostBasisEvents"
  msg_aggregator :: "UserMessage list"
  log_records :: "LogRecord list"

definition reset :: "CostBasisCalculator \<Rightarrow> DBSettings \<Rightarrow> CostBasisCalculator" where
  "reset self new_settings =
     self\<lparr>settings := new_settings,
          profit_currency := main_currency new_settings,
          events := Map.empty\<rparr>"

text \<open>
  \<^verbatim>\<open>__init__\<close>: the calculator starts from the settings with no ledger, no message and
  no log record.
\<close>

definition new_CostBasisCalculator :: "DBSettings \<Rightarrow> CostBasisCalculator" where
  "new_CostBasisCalculator st =
     \<lparr>settings = st, profit_currency = main_currency st, events = Map.empty,
      msg_aggregator = [], log_records = []\<rparr>"

text \<open>
  \<^verbatim>\<open>get_events\<close> looks the asset up in a \<^verbatim>\<open>defaultdict\<close>, after replacing WETH by ETH: a
  missing key is created with an empty ledger. \<open>events_key\<close> is the key that is looked
  up. The source then mutates the ledger object it got; the model computes the new ledger
  and stores it under the same key with \<open>put_events\<close>.
\<close>

definition events_key :: "Asset \<Rightarrow> Asset" where
  "events_key asset = (if asset = A_WETH then A_ETH else asset)"

definition get_events :: "CostBasisCalculator \<Rightarrow> Asset \<Rightarrow> CostBasisEvents \<times> CostBasisCalculator" where
  "get_events self asset =
     (case events self (events_key asset) of
        Some asset_events \<Rightarrow> (asset_events, self)
      | None \<Rightarrow> (new_CostBasisEvents,
                 self\<lparr>events := (events self)(events_key asset \<mapsto> new_CostBasisEvents)\<rparr>))"

definition put_events :: "CostBasisCalculator \<Rightarrow> Asset \<Rightarrow> CostBasisEvents \<Rightarrow> CostBasisCalculator" where
  "put_events self asset asset_events =
     self\<lparr>events := (events self)(events_key asset \<mapsto> asset_events)\<rparr>"

definition inform_user_missing_acquisition ::
  "CostBasisCalculator \<Rightarrow> Asset \<Rightarrow> Timestamp \<Rightarrow> FVal option \<Rightarrow> FVal option \<Rightarrow> CostBasisCalculator" where
  "inform_user_missing_acquisition self asset time found_amount missing_amount =
     (case found_amount of
        None \<Rightarrow> self\<lparr>msg_aggregator := msg_aggregator self @ [No_documented_acquisition asset time]\<rparr>
      | Some found \<Rightarrow>
          self\<lparr>msg_aggregator := msg_aggregator self @
                 [Not_enough_documented_acquisitions asset time found missing_amount]\<rparr>)"

text \<open>Python's \<^verbatim>\<open>xs[:k]\<close> and \<^verbatim>\<open>del xs[:k]\<close>: a negative \<open>k\<close> counts from the end.\<close>

definition slice_end :: "int \<Rightarrow> 'a list \<Rightarrow> nat" where
  "slice_end k xs = (if k < 0 then nat (int (length xs) + k) else nat k)"

definition slice_upto :: "int \<Rightarrow> 'a list \<Rightarrow> 'a list" where
  "slice_upto k xs = take (slice_end k xs) xs"

definition del_slice_upto :: "int \<Rightarrow> 'a list \<Rightarrow> 'a list" where
  "del_slice_upto k xs = drop (slice_end k xs) xs"

subsection \<open>reduce\_asset\_amount\<close>

text \<open>
  The local variables of the loop. \<^verbatim>\<open>stop_index\<close> is unbound until the loop assigns it.
\<close>

record reduce_vars =
  r_remaining_amount :: FVal
  r_stop_index :: "int option"
  r_remaining_amount_from_last_buy :: FVal

text \<open>
  The loop over \<^verbatim>\<open>enumerate(asset_events.acquisitions)\<close>: \<open>n\<close> is the length of the
  whole list, \<open>idx\<close> the index of the head of the part still to visit.
\<close>

fun reduce_loop :: "nat \<Rightarrow> nat \<Rightarrow> AssetAcquisitionEvent list \<Rightarrow> reduce_vars \<Rightarrow> reduce_vars" where
  "reduce_loop n idx [] v = v"
| "reduce_loop n idx (acquisition_event # rest) v =
     (if r_remaining_amount v < remaining_amount acquisition_event then
        v\<lparr>r_stop_index := Some (int idx),
          r_remaining_amount_from_last_buy :=
            remaining_amount acquisition_event - r_remaining_amount v\<rparr>
      else
        let v1 = v\<lparr>r_remaining_amount := r_remaining_amount v - remaining_amount acquisition_event\<rparr>;
            v2 = (if int idx = int n - 1 then v1\<lparr>r_stop_index := Some (int idx + 1)\<rparr> else v1)
        in reduce_loop n (idx + 1) rest v2)"

definition reduce_asset_amount ::
  "CostBasisCalculator \<Rightarrow> Asset \<Rightarrow> FVal \<Rightarrow> Timestamp \<Rightarrow> error + (bool \<times> CostBasisCalculator)" where
  "reduce_asset_amount self asset amount timestamp =
     (if amount = 0 then Inr (True, self)
      else
        let (asset_events, self1) = get_events self asset in
        if length (acquisitions asset_events) = 0 then Inr (False, self1)
        else
          let v = reduce_loop (length (acquisitions asset_events)) 0 (acquisitions asset_events)
                    \<lparr>r_remaining_amount = amount, r_stop_index = None,
                     r_remaining_amount_from_last_buy = -1\<rparr>
          in case r_stop_index v of
               None \<Rightarrow> Inl UnboundLocalError
             | Some stop_index \<Rightarrow>
                 let acqs = del_slice_upto stop_index (acquisitions asset_events) in
                 if r_remaining_amount_from_last_buy v \<noteq> -1 then
                   (case acqs of
                      [] \<Rightarrow> Inl IndexError
                    | first # rest \<Rightarrow>
                        Inr (True,
                             put_events self1 asset
                               (asset_events\<lparr>acquisitions :=
                                  first\<lparr>remaining_amount := r_remaining_amount_from_last_buy v\<rparr> # rest\<rparr>)))
                 else if r_remaining_amount v \<noteq> 0 then
                   Inr (False,
                        (put_events self1 asset (asset_events\<lparr>acquisitions := acqs\<rparr>))
                          \<lparr>log_records := log_records self1 @ [Critical_no_documented_buy asset timestamp]\<rparr>)
                 else Inr (True, put_events self1 asset (asset_events\<lparr>acquisitions := acqs\<rparr>)))"

subsection \<open>obtain\_asset\<close>

definition obtain_asset :: "CostBasisCalculator \<Rightarrow> ProcessedAccountingEvent \<Rightarrow> CostBasisCalculator" where
  "obtain_asset self ev =
     (let asset_event = new_AssetAcquisitionEvent ev;
          (asset_events, self1) = get_events self (ev_asset (event asset_event))
      in put_events self1 (ev_asset (event asset_event))
           (asset_events\<lparr>acquisitions := acquisitions asset_events @ [asset_event]\<rparr>))"

subsection \<open>calculate\_spend\_cost\_basis\<close>

record spend_vars =
  v_remaining_sold_amount :: FVal
  v_stop_index :: int
  v_taxfree_bought_cost :: FVal
  v_taxable_bought_cost :: FVal
  v_taxable_amount :: FVal
  v_taxfree_amount :: FVal
  v_remaining_amount_from_last_buy :: FVal
  v_matched_acquisitions :: "MatchedAcquisition list"
  v_log :: "LogRecord list"

definition at_taxfree_period :: "DBSettings \<Rightarrow> AssetAcquisitionEvent \<Rightarrow> Timestamp \<Rightarrow> bool" where
  "at_taxfree_period st acquisition_event timestamp =
     (case taxfree_after_period st of
        None \<Rightarrow> False
      | Some period \<Rightarrow> acq_timestamp acquisition_event + period < timestamp)"

definition tax_status :: "bool \<Rightarrow> string" where
  "tax_status taxfree = (if taxfree then ''TAX-FREE'' else ''TAXABLE'')"

text \<open>
  The loop over \<^verbatim>\<open>enumerate(asset_events.acquisitions)\<close>. It returns the local variables
  and the lots it went through, a lot that was used up with its remaining amount set to
  zero. The entry for a lot that is used up shows the zero that line 445 writes into the
  lot. The entry for the lot at which the scan stops shows what is left of it: line 472
  writes \<^verbatim>\<open>remaining_amount_from_last_buy\<close> into \<^verbatim>\<open>acquisitions[0]\<close>, which is this lot once
  line 469 has deleted the \<^verbatim>\<open>stop_index\<close> lots before it.
\<close>

fun spend_loop ::
  "CostBasisCalculator \<Rightarrow> Asset \<Rightarrow> Timestamp \<Rightarrow> nat \<Rightarrow> nat \<Rightarrow> AssetAcquisitionEvent list \<Rightarrow>
   spend_vars \<Rightarrow> spend_vars \<times> AssetAcquisitionEvent list" where
  "spend_loop self spending_asset timestamp n idx [] v = (v, [])"
| "spend_loop self spending_asset timestamp n idx (acquisition_event # rest) v =
     (let taxfree = at_taxfree_period (settings self) acquisition_event timestamp in
      if v_remaining_sold_amount v < remaining_amount acquisition_event then
        let acquisition_cost = acq_rate acquisition_event * v_remaining_sold_amount v;
            v1 = (if taxfree then
                    v\<lparr>v_taxfree_amount := v_taxfree_amount v + v_remaining_sold_amount v,
                      v_taxfree_bought_cost := v_taxfree_bought_cost v + acquisition_cost\<rparr>
                  else
                    v\<lparr>v_taxable_amount := v_taxable_amount v + v_remaining_sold_amount v,
                      v_taxable_bought_cost := v_taxable_bought_cost v + acquisition_cost\<rparr>)
        in (v1\<lparr>v_stop_index := int idx,
                v_remaining_amount_from_last_buy :=
                  remaining_amount acquisition_event - v_remaining_sold_amount v,
                v_log := v_log v @
                  [Debug_uses_up_part (tax_status taxfree) (v_remaining_sold_amount v)
                     (acq_amount acquisition_event) spending_asset (acq_rate acquisition_event)
                     (profit_currency self) (acq_timestamp acquisition_event)],
                v_matched_acquisitions := v_matched_acquisitions v @
                  [\<lparr>m_amount = v_remaining_sold_amount v,
                    m_event = acquisition_event\<lparr>remaining_amount :=
                      remaining_amount acquisition_event - v_remaining_sold_amount v\<rparr>\<rparr>]\<rparr>,
            acquisition_event # rest)
      else
        let acquisition_cost = acq_rate acquisition_event * remaining_amount acquisition_event;
            v1 = v\<lparr>v_remaining_sold_amount :=
                     v_remaining_sold_amount v - remaining_amount acquisition_event\<rparr>;
            v2 = (if taxfree then
                    v1\<lparr>v_taxfree_amount := v_taxfree_amount v1 + remaining_amount acquisition_event,
                       v_taxfree_bought_cost := v_taxfree_bought_cost v1 + acquisition_cost\<rparr>
                  else
                    v1\<lparr>v_taxable_amount := v_taxable_amount v1 + remaining_amount acquisition_event,
                       v_taxable_bought_cost := v_taxable_bought_cost v1 + acquisition_cost\<rparr>);
            v3 = v2\<lparr>v_log := v_log v2 @
                      [Debug_uses_up_entire (tax_status taxfree) (remaining_amount acquisition_event)
                         spending_asset (acq_rate acquisition_event) (profit_currency self)
                         (acq_timestamp acquisition_event)],
                    v_matched_acquisitions := v_matched_acquisitions v2 @
                      [\<lparr>m_amount = remaining_amount acquisition_event,
                        m_event = acquisition_event\<lparr>remaining_amount := 0\<rparr>\<rparr>]\<rparr>;
            v4 = (if int idx = int n - 1 then v3\<lparr>v_stop_index := int idx + 1\<rparr> else v3);
            (v5, rest') = spend_loop self spending_asset timestamp n (idx + 1) rest v4
        in (v5, acquisition_event\<lparr>remaining_amount := 0\<rparr> # rest'))"

definition calculate_spend_cost_basis ::
  "CostBasisCalculator \<Rightarrow> FVal \<Rightarrow> Asset \<Rightarrow> Timestamp \<Rightarrow> error + (CostBasisInfo \<times> CostBasisCalculator)" where
  "calculate_spend_cost_basis self spending_amount spending_asset timestamp =
     (let v0 = \<lparr>v_remaining_sold_amount = spending_amount, v_stop_index = -1,
                v_taxfree_bought_cost = 0, v_taxable_bought_cost = 0,
                v_taxable_amount = 0, v_taxfree_amount = 0,
                v_remaining_amount_from_last_buy = -1,
                v_matched_acquisitions = [], v_log = []\<rparr>;
          (asset_events0, self1) = get_events self spending_asset;
          (v, scanned) = spend_loop self1 spending_asset timestamp
                           (length (acquisitions asset_events0)) 0 (acquisitions asset_events0) v0;
          asset_events = asset_events0\<lparr>acquisitions := scanned\<rparr>;
          self2 = (put_events self1 spending_asset asset_events)
                    \<lparr>log_records := log_records self1 @ v_log v\<rparr>
      in
      if length (acquisitions asset_events) = 0 then
        Inr (\<lparr>taxable_amount = spending_amount, taxable_bought_cost = 0,
              taxfree_bought_cost = 0, matched_acquisitions = [], is_complete = False\<rparr>,
             inform_user_missing_acquisition self2 spending_asset timestamp None None)
      else
        let used = used_acquisitions asset_events @ slice_upto (v_stop_index v) (acquisitions asset_events);
            acqs = del_slice_upto (v_stop_index v) (acquisitions asset_events)
        in
        if v_remaining_amount_from_last_buy v \<noteq> -1 then
          (case acqs of
             [] \<Rightarrow> Inl IndexError
           | first # rest \<Rightarrow>
               Inr (\<lparr>taxable_amount = v_taxable_amount v,
                     taxable_bought_cost = v_taxable_bought_cost v,
                     taxfree_bought_cost = v_taxfree_bought_cost v,
                     matched_acquisitions = v_matched_acquisitions v,
                     is_complete = True\<rparr>,
                    put_events self2 spending_asset
                      (asset_events\<lparr>used_acquisitions := used,
                         acquisitions :=
                           first\<lparr>remaining_amount := v_remaining_amount_from_last_buy v\<rparr> # rest\<rparr>)))
        else if v_remaining_sold_amount v \<noteq> 0 then
          let adjusted_amount = spending_amount - v_taxfree_amount v;
              self3 = inform_user_missing_acquisition
                        (put_events self2 spending_asset
                           (asset_events\<lparr>used_acquisitions := used, acquisitions := acqs\<rparr>))
                        spending_asset timestamp
                        (Some (v_taxable_amount v + v_taxfree_amount v))
                        (Some (v_remaining_sold_amount v))
          in Inr (\<lparr>taxable_amount = adjusted_amount,
                   taxable_bought_cost = v_taxable_bought_cost v,
                   taxfree_bought_cost = v_taxfree_bought_cost v,
                   matched_acquisitions = v_matched_acquisitions v,
                   is_complete = False\<rparr>,
                  self3)
        else
          Inr (\<lparr>taxable_amount = v_taxable_amount v,
                taxable_bought_cost = v_taxable_bought_cost v,
                taxfree_bought_cost = v_taxfree_bought_cost v,
                matched_acquisitions = v_matched_acquisitions v,
                is_complete = True\<rparr>,
               put_events self2 spending_asset
                 (asset_events\<lparr>used_acquisitions := used, acquisitions := acqs\<rparr>)))"

subsection \<open>spend\_asset\<close>

definition spend_asset ::
  "Constants \<Rightarrow> CostBasisCalculator \<Rightarrow> Location \<Rightarrow> Timestamp \<Rightarrow> Asset \<Rightarrow> FVal \<Rightarrow> FVal \<Rightarrow> bool \<Rightarrow>
   error + (CostBasisInfo option \<times> CostBasisCalculator)" where
  "spend_asset c self location timestamp asset amount rate taxable_spend =
     (let ev = \<lparr>spend_timestamp = timestamp, spend_location = location,
                spend_amount = amount, spend_rate = rate\<rparr>;
          (asset_events, self1) = get_events self asset;
          self2 = put_events self1 asset (asset_events\<lparr>spends := spends asset_events @ [ev]\<rparr>)
      in
      if \<not> is_fiat c asset \<and> taxable_spend then
        (case calculate_spend_cost_basis self2 amount asset timestamp of
           Inl e \<Rightarrow> Inl e
         | Inr (info, self3) \<Rightarrow> Inr (Some info, self3))
      else
        (case reduce_asset_amount self2 asset amount timestamp of
           Inl e \<Rightarrow> Inl e
         | Inr (_, self3) \<Rightarrow> Inr (None, self3)))"

subsection \<open>get\_calculated\_asset\_amount\<close>

definition get_calculated_asset_amount ::
  "CostBasisCalculator \<Rightarrow> Asset \<Rightarrow> FVal option \<times> CostBasisCalculator" where
  "get_calculated_asset_amount self asset =
     (let (asset_events, self1) = get_events self asset in
      if length (acquisitions asset_events) = 0 then (None, self1)
      else (Some (foldl (\<lambda>amount acquisition_event. amount + remaining_amount acquisition_event)
                    0 (acquisitions asset_events)),
            self1))"

subsection \<open>Forks\<close>





subsection \<open>What a ledger holds\<close>

definition pending :: "CostBasisCalculator \<Rightarrow> Asset \<Rightarrow> AssetAcquisitionEvent list" where
  "pending self asset =
     (case events self (events_key asset) of None \<Rightarrow> [] | Some e \<Rightarrow> acquisitions e)"

definition used :: "CostBasisCalculator \<Rightarrow> Asset \<Rightarrow> AssetAcquisitionEvent list" where
  "used self asset =
     (case events self (events_key asset) of None \<Rightarrow> [] | Some e \<Rightarrow> used_acquisitions e)"

definition spent :: "CostBasisCalculator \<Rightarrow> Asset \<Rightarrow> AssetSpendEvent list" where
  "spent self asset =
     (case events self (events_key asset) of None \<Rightarrow> [] | Some e \<Rightarrow> spends e)"

definition total_remaining :: "AssetAcquisitionEvent list \<Rightarrow> FVal" where
  "total_remaining lots = sum_list (map remaining_amount lots)"

subsection \<open>Notions used in the statements\<close>

text \<open>
  A lot that the scan used up, and the entry that matches the whole of a lot, which shows
  the lot used up.
\<close>

definition used_up :: "AssetAcquisitionEvent \<Rightarrow> AssetAcquisitionEvent" where
  "used_up a = a\<lparr>remaining_amount := 0\<rparr>"

definition full_match :: "AssetAcquisitionEvent \<Rightarrow> MatchedAcquisition" where
  "full_match a = \<lparr>m_amount = remaining_amount a, m_event = a\<lparr>remaining_amount := 0\<rparr>\<rparr>"

text \<open>
  The cost of a matched entry, and the matched entries on each side of the tax-free
  period.
\<close>

definition matched_cost :: "MatchedAcquisition \<Rightarrow> FVal" where
  "matched_cost m = acq_rate (m_event m) * m_amount m"

definition taxfree_matches :: "DBSettings \<Rightarrow> Timestamp \<Rightarrow> MatchedAcquisition list \<Rightarrow> MatchedAcquisition list" where
  "taxfree_matches st timestamp ms = filter (\<lambda>m. at_taxfree_period st (m_event m) timestamp) ms"

definition taxable_matches :: "DBSettings \<Rightarrow> Timestamp \<Rightarrow> MatchedAcquisition list \<Rightarrow> MatchedAcquisition list" where
  "taxable_matches st timestamp ms = filter (\<lambda>m. \<not> at_taxfree_period st (m_event m) timestamp) ms"

text \<open>
  The first-in-first-out scan, as both loops of the source run it: \<open>fifo_stop\<close> is the
  number of lots that are used up entirely before the scan stops, either at a lot that
  holds more than what is left to take or at the end of the list. From it follow the
  matched entries, the lots that stay pending, the lots that are used up, and whether the
  lots covered the amount.
\<close>

fun fifo_stop :: "FVal \<Rightarrow> AssetAcquisitionEvent list \<Rightarrow> nat" where
  "fifo_stop amount [] = 0"
| "fifo_stop amount (a # rest) =
     (if amount < remaining_amount a then 0 else Suc (fifo_stop (amount - remaining_amount a) rest))"

definition fifo_matches :: "FVal \<Rightarrow> AssetAcquisitionEvent list \<Rightarrow> MatchedAcquisition list" where
  "fifo_matches amount lots =
     (let k = fifo_stop amount lots in
      map full_match (take k lots) @
      (if k < length lots
       then [\<lparr>m_amount = amount - total_remaining (take k lots),
              m_event = (lots ! k)\<lparr>remaining_amount :=
                remaining_amount (lots ! k) - (amount - total_remaining (take k lots))\<rparr>\<rparr>]
       else []))"

definition fifo_pending :: "FVal \<Rightarrow> AssetAcquisitionEvent list \<Rightarrow> AssetAcquisitionEvent list" where
  "fifo_pending amount lots =
     (let k = fifo_stop amount lots in
      if k < length lots
      then (lots ! k)\<lparr>remaining_amount :=
              remaining_amount (lots ! k) - (amount - total_remaining (take k lots))\<rparr> # drop (Suc k) lots
      else [])"

definition fifo_used :: "FVal \<Rightarrow> AssetAcquisitionEvent list \<Rightarrow> AssetAcquisitionEvent list" where
  "fifo_used amount lots = map used_up (take (fifo_stop amount lots) lots)"

definition fifo_complete :: "FVal \<Rightarrow> AssetAcquisitionEvent list \<Rightarrow> bool" where
  "fifo_complete amount lots \<longleftrightarrow> fifo_stop amount lots < length lots \<or> amount - total_remaining lots = 0"

definition fifo_info :: "DBSettings \<Rightarrow> Timestamp \<Rightarrow> FVal \<Rightarrow> AssetAcquisitionEvent list \<Rightarrow> CostBasisInfo" where
  "fifo_info st timestamp amount lots =
     \<lparr>taxable_amount =
        (if fifo_complete amount lots
         then sum_list (map m_amount (taxable_matches st timestamp (fifo_matches amount lots)))
         else amount - sum_list (map m_amount (taxfree_matches st timestamp (fifo_matches amount lots)))),
      taxable_bought_cost =
        sum_list (map matched_cost (taxable_matches st timestamp (fifo_matches amount lots))),
      taxfree_bought_cost =
        sum_list (map matched_cost (taxfree_matches st timestamp (fifo_matches amount lots))),
      matched_acquisitions = fifo_matches amount lots,
      is_complete = fifo_complete amount lots\<rparr>"

definition fifo_messages :: "DBSettings \<Rightarrow> Asset \<Rightarrow> Timestamp \<Rightarrow> FVal \<Rightarrow> AssetAcquisitionEvent list \<Rightarrow> UserMessage list" where
  "fifo_messages st asset timestamp amount lots =
     (if fifo_complete amount lots then []
      else [Not_enough_documented_acquisitions asset timestamp
              (sum_list (map m_amount (taxable_matches st timestamp (fifo_matches amount lots))) +
               sum_list (map m_amount (taxfree_matches st timestamp (fifo_matches amount lots))))
              (Some (amount - total_remaining lots))])"

text \<open>
  The invariant of the data model on the pending lots of an asset: every lot holds a
  positive remaining amount.
\<close>

definition lots_positive :: "AssetAcquisitionEvent list \<Rightarrow> bool" where
  "lots_positive lots \<longleftrightarrow> list_all (\<lambda>a. 0 < remaining_amount a) lots"

text \<open>
  What a call leaves behind, read off its result: the value it returns, and the pending
  lots, the used lots and the messages of the calculator it returns. An exception gives
  \<open>None\<close>.
\<close>

definition returned :: "error + ('a \<times> CostBasisCalculator) \<Rightarrow> 'a option" where
  "returned r = (case r of Inl e \<Rightarrow> None | Inr (x, self') \<Rightarrow> Some x)"

definition pending_after ::
  "Asset \<Rightarrow> error + ('a \<times> CostBasisCalculator) \<Rightarrow> AssetAcquisitionEvent list option" where
  "pending_after asset r = (case r of Inl e \<Rightarrow> None | Inr (x, self') \<Rightarrow> Some (pending self' asset))"

definition used_after ::
  "Asset \<Rightarrow> error + ('a \<times> CostBasisCalculator) \<Rightarrow> AssetAcquisitionEvent list option" where
  "used_after asset r = (case r of Inl e \<Rightarrow> None | Inr (x, self') \<Rightarrow> Some (used self' asset))"

definition messages_after :: "error + ('a \<times> CostBasisCalculator) \<Rightarrow> UserMessage list option" where
  "messages_after r = (case r of Inl e \<Rightarrow> None | Inr (x, self') \<Rightarrow> Some (msg_aggregator self'))"



subsection \<open>Example inputs\<close>

text \<open>
  Settings with a tax-free period of one year, and a ledger event of a purchase, from
  which the concrete calculators of the examples are built with \<open>obtain_asset\<close>.
\<close>

definition example_settings :: DBSettings where
  "example_settings = \<lparr>main_currency = Other_asset ''EUR'', taxfree_after_period = Some 31536000\<rparr>"

definition example_event :: "Asset \<Rightarrow> Timestamp \<Rightarrow> FVal \<Rightarrow> Price \<Rightarrow> ProcessedAccountingEvent" where
  "example_event asset timestamp amount price =
     \<lparr>ev_type = Other_event_type ''trade'', ev_notes = ''buy'', ev_location = ''kraken'',
      ev_timestamp = timestamp, ev_asset = asset, ev_taxable_amount = amount,
      ev_free_amount = 0, ev_price = price\<rparr>"

text \<open>Values for the constants: three fork timestamps, and euro as the only fiat asset.\<close>

definition example_constants :: Constants where
  "example_constants =
     \<lparr>ETH_DAO_FORK_TS = 1469020840, BTC_BCH_FORK_TS = 1501593374,
      BCH_BSV_FORK_TS = 1542304800, is_fiat = (\<lambda>asset. asset = Other_asset ''EUR'')\<rparr>"

subsection \<open>Auxiliary notions of the proofs\<close>

text \<open>
  \<open>spend_step\<close> is the body of the loop of \<^verbatim>\<open>calculate_spend_cost_basis\<close> for a lot that
  is used up, \<open>spend_vars_init\<close> the local variables before the loop, and \<open>classified\<close>
  the loop invariant of the four accumulators.
\<close>

definition spend_step :: "CostBasisCalculator \<Rightarrow> Asset \<Rightarrow> Timestamp \<Rightarrow> nat \<Rightarrow> nat \<Rightarrow> AssetAcquisitionEvent \<Rightarrow> spend_vars \<Rightarrow> spend_vars" where
  "spend_step self spending_asset timestamp n idx acquisition_event v =
    (let taxfree = at_taxfree_period (settings self) acquisition_event timestamp;
         acquisition_cost = acq_rate acquisition_event * remaining_amount acquisition_event;
            v1 = v\<lparr>v_remaining_sold_amount :=
                     v_remaining_sold_amount v - remaining_amount acquisition_event\<rparr>;
            v2 = (if taxfree then
                    v1\<lparr>v_taxfree_amount := v_taxfree_amount v1 + remaining_amount acquisition_event,
                       v_taxfree_bought_cost := v_taxfree_bought_cost v1 + acquisition_cost\<rparr>
                  else
                    v1\<lparr>v_taxable_amount := v_taxable_amount v1 + remaining_amount acquisition_event,
                       v_taxable_bought_cost := v_taxable_bought_cost v1 + acquisition_cost\<rparr>);
            v3 = v2\<lparr>v_log := v_log v2 @
                      [Debug_uses_up_entire (tax_status taxfree) (remaining_amount acquisition_event)
                         spending_asset (acq_rate acquisition_event) (profit_currency self)
                         (acq_timestamp acquisition_event)],
                    v_matched_acquisitions := v_matched_acquisitions v2 @
                      [\<lparr>m_amount = remaining_amount acquisition_event,
                        m_event = acquisition_event\<lparr>remaining_amount := 0\<rparr>\<rparr>]\<rparr>
     in (if int idx = int n - 1 then v3\<lparr>v_stop_index := int idx + 1\<rparr> else v3))"

definition spend_vars_init :: "FVal \<Rightarrow> spend_vars" where
  "spend_vars_init spending_amount =
     \<lparr>v_remaining_sold_amount = spending_amount, v_stop_index = -1,
                v_taxfree_bought_cost = 0, v_taxable_bought_cost = 0,
                v_taxable_amount = 0, v_taxfree_amount = 0,
                v_remaining_amount_from_last_buy = -1,
                v_matched_acquisitions = [], v_log = []\<rparr>"

definition classified :: "DBSettings \<Rightarrow> Timestamp \<Rightarrow> spend_vars \<Rightarrow> bool" where
  "classified st timestamp v \<longleftrightarrow>
     v_taxfree_amount v = sum_list (map m_amount (taxfree_matches st timestamp (v_matched_acquisitions v))) \<and>
     v_taxfree_bought_cost v = sum_list (map matched_cost (taxfree_matches st timestamp (v_matched_acquisitions v))) \<and>
     v_taxable_amount v = sum_list (map m_amount (taxable_matches st timestamp (v_matched_acquisitions v))) \<and>
     v_taxable_bought_cost v = sum_list (map matched_cost (taxable_matches st timestamp (v_matched_acquisitions v)))"

section \<open>Properties\<close>

subsection \<open>Ledger lookup\<close>

lemma get_events_eq:
  assumes "get_events self asset = (e, s1)"
  shows "s1 = self\<lparr>events := (events self)(events_key asset \<mapsto> e)\<rparr>"
    and "acquisitions e = pending self asset"
    and "used_acquisitions e = used self asset"
    and "spends e = spent self asset"
  using assms
  by (auto simp add: get_events_def pending_def used_def spent_def new_CostBasisEvents_def map_upd_triv
      split: option.splits)

lemma get_events_pending_Nil:
  assumes "get_events self asset = (e, s1)" "pending self asset = []"
  shows "(events self)(events_key asset \<mapsto> e\<lparr>acquisitions := []\<rparr>) =
         (events self)(events_key asset \<mapsto> e)"
proof -
  have "acquisitions e = []" using get_events_eq(2)[OF assms(1)] assms(2) by simp
  then have "e\<lparr>acquisitions := []\<rparr> = e" by simp
  then show ?thesis by simp
qed

subsection \<open>The first-in-first-out scan\<close>

lemma total_remaining_simps [simp]:
  "total_remaining [] = 0"
  "total_remaining (a # as) = remaining_amount a + total_remaining as"
  "total_remaining (xs @ ys) = total_remaining xs + total_remaining ys"
  by (simp_all add: total_remaining_def)



lemma fifo_stop_le: "fifo_stop amount lots \<le> length lots"
  by (induction lots arbitrary: amount) auto

lemma fifo_stop_less:
  "fifo_stop amount lots < length lots \<Longrightarrow>
   amount - total_remaining (take (fifo_stop amount lots) lots) < remaining_amount (lots ! fifo_stop amount lots)"
proof (induction lots arbitrary: amount)
  case Nil
  then show ?case by simp
next
  case (Cons a lots)
  show ?case
  proof (cases "amount < remaining_amount a")
    case True
    then show ?thesis by simp
  next
    case False
    then have "fifo_stop (amount - remaining_amount a) lots < length lots"
      using Cons.prems by simp
    from Cons.IH[OF this] False show ?thesis by (simp add: algebra_simps)
  qed
qed

lemma fifo_stop_all:
  "fifo_stop amount lots = length lots \<Longrightarrow> lots \<noteq> [] \<Longrightarrow> 0 \<le> amount - total_remaining lots"
proof (induction lots arbitrary: amount)
  case Nil
  then show ?case by simp
next
  case (Cons a lots)
  have na: "\<not> amount < remaining_amount a" using Cons.prems(1) by (auto split: if_splits)
  then have k: "fifo_stop (amount - remaining_amount a) lots = length lots"
    using Cons.prems(1) by simp
  show ?case
  proof (cases "lots = []")
    case True
    then show ?thesis using na by simp
  next
    case False
    from Cons.IH[OF k False] show ?thesis by (simp add: algebra_simps)
  qed
qed

subsection \<open>The loop of calculate\_spend\_cost\_basis\<close>

lemma lot_update_simps [simp]:
  "acq_rate (a\<lparr>remaining_amount := x\<rparr>) = acq_rate a"
  "acq_timestamp (a\<lparr>remaining_amount := x\<rparr>) = acq_timestamp a"
  "acq_amount (a\<lparr>remaining_amount := x\<rparr>) = acq_amount a"
  "at_taxfree_period st (a\<lparr>remaining_amount := x\<rparr>) timestamp = at_taxfree_period st a timestamp"
  by (simp_all add: acq_rate_def acq_timestamp_def acq_amount_def at_taxfree_period_def
      split: option.splits)

lemma spend_loop_Cons_full:
  "\<not> v_remaining_sold_amount v < remaining_amount a \<Longrightarrow>
   spend_loop self asset ts n idx (a # lots) v =
     (fst (spend_loop self asset ts n (idx + 1) lots (spend_step self asset ts n idx a v)),
      used_up a # snd (spend_loop self asset ts n (idx + 1) lots (spend_step self asset ts n idx a v)))"
  by (simp add: spend_step_def Let_def used_up_def split: prod.splits)

lemma spend_step_simps [simp]:
  "v_remaining_sold_amount (spend_step self asset ts n idx a v) = v_remaining_sold_amount v - remaining_amount a"
  "v_remaining_amount_from_last_buy (spend_step self asset ts n idx a v) = v_remaining_amount_from_last_buy v"
  "v_matched_acquisitions (spend_step self asset ts n idx a v) = v_matched_acquisitions v @ [full_match a]"
  "v_stop_index (spend_step self asset ts n idx a v) = (if int idx = int n - 1 then int idx + 1 else v_stop_index v)"
  by (simp_all add: spend_step_def Let_def full_match_def)

lemma spend_loop_fifo:
  assumes "spend_loop self asset ts n idx lots v = (v', scanned)"
    and "n = idx + length lots"
  shows "scanned = map used_up (take (fifo_stop (v_remaining_sold_amount v) lots) lots) @
                   drop (fifo_stop (v_remaining_sold_amount v) lots) lots \<and>
         v_remaining_sold_amount v' =
           v_remaining_sold_amount v - total_remaining (take (fifo_stop (v_remaining_sold_amount v) lots) lots) \<and>
         v_stop_index v' =
           (if lots = [] then v_stop_index v else int (idx + fifo_stop (v_remaining_sold_amount v) lots)) \<and>
         v_remaining_amount_from_last_buy v' =
           (if fifo_stop (v_remaining_sold_amount v) lots < length lots
            then remaining_amount (lots ! fifo_stop (v_remaining_sold_amount v) lots) - v_remaining_sold_amount v'
            else v_remaining_amount_from_last_buy v) \<and>
         v_matched_acquisitions v' =
           v_matched_acquisitions v @
           map full_match (take (fifo_stop (v_remaining_sold_amount v) lots) lots) @
           (if fifo_stop (v_remaining_sold_amount v) lots < length lots
            then [\<lparr>m_amount = v_remaining_sold_amount v',
                   m_event = (lots ! fifo_stop (v_remaining_sold_amount v) lots)
                     \<lparr>remaining_amount :=
                        remaining_amount (lots ! fifo_stop (v_remaining_sold_amount v) lots) -
                        v_remaining_sold_amount v'\<rparr>\<rparr>]
            else [])"
  using assms
proof (induction lots arbitrary: idx v v' scanned)
  case Nil
  then show ?case by auto
next
  case (Cons a lots)
  show ?case
  proof (cases "v_remaining_sold_amount v < remaining_amount a")
    case True
    then show ?thesis using Cons.prems by (auto simp add: Let_def)
  next
    case False
    let ?w = "spend_step self asset ts n idx a v"
    obtain w' sc where r: "spend_loop self asset ts n (idx + 1) lots ?w = (w', sc)"
      by (cases "spend_loop self asset ts n (idx + 1) lots ?w")
    have "spend_loop self asset ts n idx (a # lots) v = (w', used_up a # sc)"
      by (simp only: spend_loop_Cons_full[OF False] r fst_conv snd_conv)
    then have res: "v' = w'" "scanned = used_up a # sc" using Cons.prems(1) by simp_all
    have n: "n = (idx + 1) + length lots" using Cons.prems(2) by simp
    show ?thesis using Cons.IH[OF r n] res False Cons.prems(2) by (auto split: if_splits)
  qed
qed

lemma classified_spend_step:
  "classified (settings self) ts v \<Longrightarrow> classified (settings self) ts (spend_step self asset ts n idx a v)"
  by (simp add: classified_def spend_step_def Let_def taxfree_matches_def taxable_matches_def matched_cost_def)

lemma classified_spend_loop:
  assumes "spend_loop self asset ts n idx lots v = (v', scanned)" "classified (settings self) ts v"
  shows "classified (settings self) ts v'"
  using assms
proof (induction lots arbitrary: idx v v' scanned)
  case Nil
  then show ?case by simp
next
  case (Cons a lots)
  show ?case
  proof (cases "v_remaining_sold_amount v < remaining_amount a")
    case True
    then show ?thesis using Cons.prems
      by (auto simp add: Let_def classified_def taxfree_matches_def taxable_matches_def matched_cost_def)
  next
    case False
    let ?w = "spend_step self asset ts n idx a v"
    obtain w' sc where r: "spend_loop self asset ts n (idx + 1) lots ?w = (w', sc)"
      by (cases "spend_loop self asset ts n (idx + 1) lots ?w")
    have "spend_loop self asset ts n idx (a # lots) v = (w', used_up a # sc)"
      by (simp only: spend_loop_Cons_full[OF False] r fst_conv snd_conv)
    then have res: "v' = w'" using Cons.prems(1) by simp
    show ?thesis using Cons.IH[OF r classified_spend_step[OF Cons.prems(2)]] res by simp
  qed
qed


lemma classified_init: "classified st ts (spend_vars_init amt)"
  by (simp add: classified_def spend_vars_init_def taxfree_matches_def taxable_matches_def)

lemma calculate_spend_cost_basis_fifo:
  assumes lots: "pending self asset = lots" "lots \<noteq> []"
  shows "\<exists>self'.
     calculate_spend_cost_basis self amt asset ts = Inr (fifo_info (settings self) ts amt lots, self') \<and>
     pending self' asset = fifo_pending amt lots \<and>
     used self' asset = used self asset @ fifo_used amt lots \<and>
     spent self' asset = spent self asset \<and>
     settings self' = settings self \<and>
     msg_aggregator self' = msg_aggregator self @ fifo_messages (settings self) asset ts amt lots \<and>
     (\<forall>key. key \<noteq> events_key asset \<longrightarrow> events self' key = events self key)"
    (is "\<exists>self'. ?P self'")
proof -
  obtain e s1 where g: "get_events self asset = (e, s1)" by (cases "get_events self asset")
  note ge = get_events_eq[OF g]
  have acq: "acquisitions e = lots" using ge(2) lots by simp
  obtain v sc where r: "spend_loop s1 asset ts (length lots) 0 lots (spend_vars_init amt) = (v, sc)"
    by (cases "spend_loop s1 asset ts (length lots) 0 lots (spend_vars_init amt)")
  note r' = r[unfolded spend_vars_init_def ge(1)]
  have s1: "settings s1 = settings self" using ge(1) by simp
  have cl: "classified (settings self) ts v"
    using classified_spend_loop[OF r] classified_init[of "settings s1" ts amt] s1 by simp
  define k where "k = fifo_stop amt lots"
  have init: "v_remaining_amount_from_last_buy (spend_vars_init amt) = -1"
    "v_remaining_sold_amount (spend_vars_init amt) = amt"
    "v_matched_acquisitions (spend_vars_init amt) = []"
    by (simp_all add: spend_vars_init_def)
  from spend_loop_fifo[OF r] lots(2)
  have sc: "sc = map used_up (take k lots) @ drop k lots"
    and sold: "v_remaining_sold_amount v = amt - total_remaining (take k lots)"
    and stop: "v_stop_index v = int k"
    and left: "v_remaining_amount_from_last_buy v =
           (if k < length lots then remaining_amount (lots ! k) - v_remaining_sold_amount v else -1)"
    and ms: "v_matched_acquisitions v = fifo_matches amt lots"
    by (simp_all add: init k_def fifo_matches_def Let_def)
  have scne: "sc \<noteq> []" using sc lots(2) by (cases "k < length lots") auto
  have kle: "k \<le> length lots" unfolding k_def by (rule fifo_stop_le)
  have tk: "slice_upto (v_stop_index v) sc = fifo_used amt lots"
    using kle by (simp add: slice_upto_def slice_end_def stop sc fifo_used_def k_def)
  have sp: "spends e = spent self asset" by (rule ge(4))
  note cl' = cl[unfolded classified_def ms]
  show ?thesis
  proof (cases "k < length lots")
    case True
    have lo: "v_remaining_amount_from_last_buy v \<noteq> -1"
      using fifo_stop_less[of amt lots] True left sold by (simp add: k_def)
    have dr: "del_slice_upto (v_stop_index v) sc = lots ! k # drop (Suc k) lots"
      using True by (simp add: del_slice_upto_def slice_end_def stop sc Cons_nth_drop_Suc)
    have co: "fifo_complete amt lots" using True by (simp add: fifo_complete_def k_def)
    define s' where "s' = self\<lparr>log_records := log_records self @ v_log v,
         events := (events self)(events_key asset \<mapsto>
           e\<lparr>used_acquisitions := used self asset @ fifo_used amt lots,
             acquisitions := fifo_pending amt lots\<rparr>)\<rparr>"
    have fp: "fifo_pending amt lots =
        (lots ! k)\<lparr>remaining_amount := v_remaining_amount_from_last_buy v\<rparr> # drop (Suc k) lots"
      using True by (simp add: fifo_pending_def Let_def left sold k_def)
    have res: "calculate_spend_cost_basis self amt asset ts = Inr (fifo_info (settings self) ts amt lots, s')"
      by (simp add: calculate_spend_cost_basis_def g acq r' Let_def scne lo tk dr s'_def
          put_events_def ge fifo_info_def co cl' ms fp)
    have "?P s'"
      unfolding res
      by (intro conjI allI impI)
         (simp_all add: s'_def spent_def pending_def used_def sp fifo_messages_def co)
    then show ?thesis by blast
  next
    case False
    then have keq: "k = length lots" using kle by simp
    have lo: "v_remaining_amount_from_last_buy v = -1" using False left by simp
    have dr: "del_slice_upto (v_stop_index v) sc = []"
      by (simp add: del_slice_upto_def slice_end_def stop sc keq)
    have fp: "fifo_pending amt lots = []" using False by (simp add: fifo_pending_def Let_def k_def)
    have sold': "v_remaining_sold_amount v = amt - total_remaining lots" using sold keq by simp
    show ?thesis
    proof (cases "amt - total_remaining lots = 0")
      case True
      have co: "fifo_complete amt lots" using True by (simp add: fifo_complete_def)
      define s' where "s' = self\<lparr>log_records := log_records self @ v_log v,
         events := (events self)(events_key asset \<mapsto>
           e\<lparr>used_acquisitions := used self asset @ fifo_used amt lots, acquisitions := []\<rparr>)\<rparr>"
      have z: "v_remaining_sold_amount v = 0" using True sold' by simp
      have res: "calculate_spend_cost_basis self amt asset ts = Inr (fifo_info (settings self) ts amt lots, s')"
        by (simp add: calculate_spend_cost_basis_def g acq r' Let_def scne lo tk dr s'_def
            put_events_def ge fifo_info_def co cl' ms z)
      have "?P s'"
        unfolding res
        by (intro conjI allI impI)
           (simp_all add: s'_def spent_def pending_def used_def sp fifo_messages_def co fp)
      then show ?thesis by blast
    next
      case nz: False
      have co: "\<not> fifo_complete amt lots" using nz False by (simp add: fifo_complete_def k_def)
      define s' where "s' = self\<lparr>log_records := log_records self @ v_log v,
         events := (events self)(events_key asset \<mapsto>
           e\<lparr>used_acquisitions := used self asset @ fifo_used amt lots, acquisitions := []\<rparr>),
         msg_aggregator := msg_aggregator self @ fifo_messages (settings self) asset ts amt lots\<rparr>"
      have z: "v_remaining_sold_amount v \<noteq> 0" using nz sold' by simp
      have res: "calculate_spend_cost_basis self amt asset ts = Inr (fifo_info (settings self) ts amt lots, s')"
        using z
        by (simp add: calculate_spend_cost_basis_def g acq r' Let_def scne lo tk dr s'_def
            put_events_def ge fifo_info_def co cl' ms inform_user_missing_acquisition_def
            fifo_messages_def sold')
      have "?P s'"
        unfolding res
        by (intro conjI allI impI)
           (simp_all add: s'_def spent_def pending_def used_def sp fp)
      then show ?thesis by blast
    qed
  qed
qed

subsection \<open>The loop of reduce\_asset\_amount\<close>

lemma reduce_loop_fifo:
  assumes "n = idx + length lots"
  shows "r_remaining_amount (reduce_loop n idx lots v) =
           r_remaining_amount v - total_remaining (take (fifo_stop (r_remaining_amount v) lots) lots) \<and>
         r_stop_index (reduce_loop n idx lots v) =
           (if lots = [] then r_stop_index v else Some (int (idx + fifo_stop (r_remaining_amount v) lots))) \<and>
         r_remaining_amount_from_last_buy (reduce_loop n idx lots v) =
           (if fifo_stop (r_remaining_amount v) lots < length lots
            then remaining_amount (lots ! fifo_stop (r_remaining_amount v) lots) -
                 r_remaining_amount (reduce_loop n idx lots v)
            else r_remaining_amount_from_last_buy v)"
  using assms
proof (induction lots arbitrary: idx v)
  case Nil
  then show ?case by simp
next
  case (Cons a lots)
  show ?case
  proof (cases "r_remaining_amount v < remaining_amount a")
    case True
    then show ?thesis by simp
  next
    case False
    have n: "n = (idx + 1) + length lots" using Cons.prems by simp
    show ?thesis using Cons.IH[OF n] False Cons.prems by (auto simp add: Let_def)
  qed
qed

lemma reduce_asset_amount_fifo:
  assumes lots: "pending self asset = lots" "lots \<noteq> []" and nz: "amount \<noteq> 0"
  shows "\<exists>self'.
     reduce_asset_amount self asset amount ts = Inr (fifo_complete amount lots, self') \<and>
     pending self' asset = fifo_pending amount lots \<and>
     used self' asset = used self asset \<and>
     spent self' asset = spent self asset \<and>
     settings self' = settings self \<and>
     msg_aggregator self' = msg_aggregator self \<and>
     log_records self' = log_records self @
        (if fifo_complete amount lots then [] else [Critical_no_documented_buy asset ts]) \<and>
     (\<forall>key. key \<noteq> events_key asset \<longrightarrow> events self' key = events self key)"
    (is "\<exists>self'. ?P self'")
proof -
  obtain e s1 where g: "get_events self asset = (e, s1)" by (cases "get_events self asset")
  note ge = get_events_eq[OF g]
  have acq: "acquisitions e = lots" using ge(2) lots by simp
  define v0 where "v0 = \<lparr>r_remaining_amount = amount, r_stop_index = None,
                     r_remaining_amount_from_last_buy = -1\<rparr>"
  define v where "v = reduce_loop (length lots) 0 lots v0"
  define k where "k = fifo_stop amount lots"
  from reduce_loop_fifo[of "length lots" 0 lots v0] lots(2)
  have rem: "r_remaining_amount v = amount - total_remaining (take k lots)"
    and stop: "r_stop_index v = Some (int k)"
    and left: "r_remaining_amount_from_last_buy v =
           (if k < length lots then remaining_amount (lots ! k) - r_remaining_amount v else -1)"
    by (simp_all add: v_def v0_def k_def)
  have kle: "k \<le> length lots" unfolding k_def by (rule fifo_stop_le)
  note v' = v_def[unfolded v0_def, symmetric]
  have ue: "used_acquisitions e = used self asset" "spends e = spent self asset" by (rule ge(3), rule ge(4))
  show ?thesis
  proof (cases "k < length lots")
    case True
    have lo: "r_remaining_amount_from_last_buy v \<noteq> -1"
      using fifo_stop_less[of amount lots] True left rem by (simp add: k_def)
    have dr: "del_slice_upto (int k) lots = lots ! k # drop (Suc k) lots"
      using True by (simp add: del_slice_upto_def slice_end_def Cons_nth_drop_Suc)
    have co: "fifo_complete amount lots" using True by (simp add: fifo_complete_def k_def)
    have fp: "fifo_pending amount lots =
        (lots ! k)\<lparr>remaining_amount := r_remaining_amount_from_last_buy v\<rparr> # drop (Suc k) lots"
      using True by (simp add: fifo_pending_def Let_def left rem k_def)
    define s' where "s' = self\<lparr>events := (events self)(events_key asset \<mapsto>
           e\<lparr>acquisitions := fifo_pending amount lots\<rparr>)\<rparr>"
    have res: "reduce_asset_amount self asset amount ts = Inr (fifo_complete amount lots, s')"
      using nz lots(2)
      by (simp add: reduce_asset_amount_def g acq v' Let_def stop lo dr s'_def put_events_def ge(1) co fp)
    have "?P s'"
      unfolding res
      by (intro conjI allI impI) (simp_all add: s'_def spent_def pending_def used_def ue co)
    then show ?thesis by blast
  next
    case False
    then have keq: "k = length lots" using kle by simp
    have lo: "r_remaining_amount_from_last_buy v = -1" using False left by simp
    have dr: "del_slice_upto (int k) lots = []"
      by (simp add: del_slice_upto_def slice_end_def keq)
    have fp: "fifo_pending amount lots = []" using False by (simp add: fifo_pending_def Let_def k_def)
    have rem': "r_remaining_amount v = amount - total_remaining lots" using rem keq by simp
    show ?thesis
    proof (cases "amount - total_remaining lots = 0")
      case True
      have co: "fifo_complete amount lots" using True by (simp add: fifo_complete_def)
      define s' where "s' = self\<lparr>events := (events self)(events_key asset \<mapsto> e\<lparr>acquisitions := []\<rparr>)\<rparr>"
      have z: "r_remaining_amount v = 0" using True rem' by simp
      have res: "reduce_asset_amount self asset amount ts = Inr (fifo_complete amount lots, s')"
        using nz lots(2)
        by (simp add: reduce_asset_amount_def g acq v' Let_def stop lo dr s'_def put_events_def ge(1) co z)
      have "?P s'"
        unfolding res
        by (intro conjI allI impI) (simp_all add: s'_def spent_def pending_def used_def ue co fp)
      then show ?thesis by blast
    next
      case nzr: False
      have co: "\<not> fifo_complete amount lots" using nzr False by (simp add: fifo_complete_def k_def)
      define s' where "s' = self\<lparr>events := (events self)(events_key asset \<mapsto> e\<lparr>acquisitions := []\<rparr>),
           log_records := log_records self @ [Critical_no_documented_buy asset ts]\<rparr>"
      have z: "r_remaining_amount v \<noteq> 0" using nzr rem' by simp
      have res: "reduce_asset_amount self asset amount ts = Inr (fifo_complete amount lots, s')"
        using nz lots(2) z
        by (simp add: reduce_asset_amount_def g acq v' Let_def stop lo dr s'_def put_events_def ge(1) co)
      have "?P s'"
        unfolding res
        by (intro conjI allI impI) (simp_all add: s'_def spent_def pending_def used_def ue co fp)
      then show ?thesis by blast
    qed
  qed
qed

lemma reduce_asset_amount_no_lots:
  assumes "pending self asset = []" "amount \<noteq> 0"
  shows "\<exists>self'.
     reduce_asset_amount self asset amount ts = Inr (False, self') \<and>
     log_records self' = log_records self \<and>
     msg_aggregator self' = msg_aggregator self \<and>
     settings self' = settings self \<and>
     (\<forall>b. pending self' b = pending self b \<and> used self' b = used self b \<and> spent self' b = spent self b)"
proof -
  obtain e s1 where g: "get_events self asset = (e, s1)" by (cases "get_events self asset")
  note ge = get_events_eq[OF g]
  have acq: "acquisitions e = []" using ge(2) assms by simp
  have res: "reduce_asset_amount self asset amount ts = Inr (False, s1)"
    using assms(2) by (simp add: reduce_asset_amount_def g acq)
  have "pending s1 b = pending self b \<and> used s1 b = used self b \<and> spent s1 b = spent self b" for b
    using ge(2,3,4) by (simp add: ge(1) pending_def used_def spent_def)
  then show ?thesis unfolding res by (simp add: ge(1))
qed

subsection \<open>Facts about the scan\<close>

lemma total_remaining_nonneg:
  "\<forall>a\<in>set lots. 0 \<le> remaining_amount a \<Longrightarrow> 0 \<le> total_remaining lots"
  by (induction lots) auto

lemma fifo_stop_prefix:
  assumes "\<forall>a\<in>set consumed. 0 \<le> remaining_amount a" "0 < remaining_amount lot"
  shows "fifo_stop (total_remaining consumed) (consumed @ lot # rest) = length consumed"
  using assms(1)
proof (induction consumed)
  case Nil
  then show ?case using assms(2) by simp
next
  case (Cons a consumed)
  have "0 \<le> total_remaining consumed" using Cons.prems by (intro total_remaining_nonneg) simp
  then show ?case using Cons by simp
qed

lemma fifo_stop_exhausted:
  assumes "\<forall>a\<in>set lots. 0 \<le> remaining_amount a" "total_remaining lots \<le> amount"
  shows "fifo_stop amount lots = length lots"
  using assms
proof (induction lots arbitrary: amount)
  case Nil
  then show ?case by simp
next
  case (Cons a lots)
  have "0 \<le> total_remaining lots" using Cons.prems(1) by (intro total_remaining_nonneg) simp
  then have "\<not> amount < remaining_amount a" using Cons.prems(2) by simp
  moreover have "fifo_stop (amount - remaining_amount a) lots = length lots"
    using Cons.prems by (intro Cons.IH) auto
  ultimately show ?case by simp
qed

lemma total_remaining_take_drop:
  "total_remaining (take k lots) + total_remaining (drop k lots) = total_remaining lots"
  using total_remaining_simps(3)[of "take k lots" "drop k lots"] by simp

lemma fifo_complete_iff:
  assumes "\<forall>a\<in>set lots. 0 \<le> remaining_amount a" "lots \<noteq> []"
  shows "fifo_complete amount lots \<longleftrightarrow> amount \<le> total_remaining lots"
proof (cases "fifo_stop amount lots < length lots")
  case True
  let ?k = "fifo_stop amount lots"
  have "amount - total_remaining (take ?k lots) < remaining_amount (lots ! ?k)"
    using fifo_stop_less[OF True] .
  moreover have "total_remaining (drop ?k lots) = remaining_amount (lots ! ?k) + total_remaining (drop (Suc ?k) lots)"
    using True by (simp add: Cons_nth_drop_Suc[symmetric])
  moreover have "0 \<le> total_remaining (drop (Suc ?k) lots)"
    using assms(1) by (intro total_remaining_nonneg) (auto dest: in_set_dropD)
  ultimately have "amount \<le> total_remaining lots"
    using total_remaining_take_drop[of ?k lots] by simp
  then show ?thesis using True by (simp add: fifo_complete_def)
next
  case False
  then have "fifo_stop amount lots = length lots" using fifo_stop_le[of amount lots] by simp
  from fifo_stop_all[OF this assms(2)] False show ?thesis by (auto simp: fifo_complete_def)
qed


lemma fifo_matches_events:
  "m \<in> set (fifo_matches amount lots) \<Longrightarrow> \<exists>a\<in>set lots. event (m_event m) = event a"
  by (auto simp add: fifo_matches_def Let_def full_match_def split: if_splits dest: in_set_takeD)

lemma fifo_matches_ledger:
  "map m_event (fifo_matches amount lots) = fifo_used amount lots @ take 1 (fifo_pending amount lots)"
  by (simp add: fifo_matches_def fifo_used_def fifo_pending_def Let_def full_match_def used_up_def
      comp_def)

lemma fifo_matches_exhausted:
  "fifo_stop amount lots = length lots \<Longrightarrow> fifo_matches amount lots = map full_match lots"
  by (simp add: fifo_matches_def)

lemma sum_list_filter_split:
  "sum_list (map f (filter P xs)) + sum_list (map f (filter (\<lambda>x. \<not> P x) xs)) = sum_list (map f xs)"
  for f :: "'a \<Rightarrow> rat"
  by (induction xs) auto

lemma taxfree_full_matches:
  "sum_list (map m_amount (taxfree_matches st ts (map full_match lots))) =
   sum_list (map remaining_amount (filter (\<lambda>a. at_taxfree_period st a ts) lots))"
  by (induction lots) (auto simp add: taxfree_matches_def full_match_def)

lemma taxable_full_matches:
  "sum_list (map m_amount (taxable_matches st ts (map full_match lots))) =
   sum_list (map remaining_amount (filter (\<lambda>a. \<not> at_taxfree_period st a ts) lots))"
  by (induction lots) (auto simp add: taxable_matches_def full_match_def)

lemma foldl_remaining:
  "foldl (\<lambda>amount acquisition_event. amount + remaining_amount acquisition_event) acc lots =
   acc + total_remaining lots"
  by (induction lots arbitrary: acc) (simp_all add: algebra_simps)

lemma at_taxfree_period_iff:
  "at_taxfree_period st a timestamp \<longleftrightarrow>
     (\<exists>period. taxfree_after_period st = Some period \<and> acq_timestamp a + period < timestamp)"
  by (simp add: at_taxfree_period_def split: option.splits)

subsection \<open>The ledgers after \<open>obtain_asset\<close>\<close>

lemma pending_new [simp]: "pending (new_CostBasisCalculator st) asset = []"
  and used_new [simp]: "used (new_CostBasisCalculator st) asset = []"
  and spent_new [simp]: "spent (new_CostBasisCalculator st) asset = []"
  by (simp_all add: new_CostBasisCalculator_def pending_def used_def spent_def)

lemma obtain_asset_ledger:
  "pending (obtain_asset self ev) asset =
     (if events_key asset = events_key (ev_asset ev)
      then pending self asset @ [new_AssetAcquisitionEvent ev] else pending self asset)"
  "used (obtain_asset self ev) asset = used self asset"
  "spent (obtain_asset self ev) asset = spent self asset"
  "settings (obtain_asset self ev) = settings self"
  "msg_aggregator (obtain_asset self ev) = msg_aggregator self"
  "log_records (obtain_asset self ev) = log_records self"
  by (auto simp add: obtain_asset_def get_events_def put_events_def pending_def used_def spent_def
      new_AssetAcquisitionEvent_def new_CostBasisEvents_def Let_def split: option.splits)

subsection \<open>calculate\_spend\_cost\_basis without and with pending lots\<close>

lemma calculate_spend_cost_basis_no_lots:
  assumes "pending self spending_asset = []"
  shows "\<exists>self'.
     calculate_spend_cost_basis self spending_amount spending_asset timestamp =
       Inr (\<lparr>taxable_amount = spending_amount, taxable_bought_cost = 0,
             taxfree_bought_cost = 0, matched_acquisitions = [], is_complete = False\<rparr>, self') \<and>
     msg_aggregator self' =
       msg_aggregator self @ [No_documented_acquisition spending_asset timestamp] \<and>
     log_records self' = log_records self \<and>
     settings self' = settings self \<and>
     (\<forall>asset. pending self' asset = pending self asset \<and> used self' asset = used self asset \<and>
        spent self' asset = spent self asset)"
proof -
  obtain e s1 where g: "get_events self spending_asset = (e, s1)"
    by (cases "get_events self spending_asset")
  note ge = get_events_eq[OF g]
  have a: "acquisitions e = []" using ge(2) assms by simp
  define self' where "self' = self\<lparr>events := (events self)(events_key spending_asset \<mapsto> e),
     msg_aggregator := msg_aggregator self @ [No_documented_acquisition spending_asset timestamp]\<rparr>"
  have res: "calculate_spend_cost_basis self spending_amount spending_asset timestamp =
       Inr (\<lparr>taxable_amount = spending_amount, taxable_bought_cost = 0,
             taxfree_bought_cost = 0, matched_acquisitions = [], is_complete = False\<rparr>, self')"
    by (simp add: calculate_spend_cost_basis_def g a ge(1) put_events_def
        get_events_pending_Nil[OF g assms] inform_user_missing_acquisition_def self'_def)
  have frame: "pending self' asset = pending self asset \<and> used self' asset = used self asset \<and>
        spent self' asset = spent self asset" for asset
    using ge(2,3,4) by (simp add: self'_def pending_def used_def spent_def)
  have "msg_aggregator self' =
       msg_aggregator self @ [No_documented_acquisition spending_asset timestamp]"
    "log_records self' = log_records self" "settings self' = settings self"
    by (simp_all add: self'_def)
  with res frame show ?thesis by blast
qed

lemma calculate_spend_cost_basis_classified:
  "\<exists>info self'.
     calculate_spend_cost_basis self spending_amount asset timestamp = Inr (info, self') \<and>
     (\<forall>m\<in>set (matched_acquisitions info).
        \<exists>a\<in>set (pending self asset). event (m_event m) = event a) \<and>
     taxfree_bought_cost info =
       sum_list (map matched_cost (taxfree_matches (settings self) timestamp (matched_acquisitions info))) \<and>
     taxable_bought_cost info =
       sum_list (map matched_cost (taxable_matches (settings self) timestamp (matched_acquisitions info))) \<and>
     taxable_amount info =
       (if is_complete info
        then sum_list (map m_amount (taxable_matches (settings self) timestamp (matched_acquisitions info)))
        else spending_amount -
             sum_list (map m_amount (taxfree_matches (settings self) timestamp (matched_acquisitions info))))"
proof (cases "pending self asset = []")
  case True
  from calculate_spend_cost_basis_no_lots[OF True, of spending_amount timestamp]
  show ?thesis by (auto simp add: taxfree_matches_def taxable_matches_def)
next
  case False
  from calculate_spend_cost_basis_fifo[OF refl False, of spending_amount timestamp]
  obtain self' where res: "calculate_spend_cost_basis self spending_amount asset timestamp =
     Inr (fifo_info (settings self) timestamp spending_amount (pending self asset), self')"
    by auto
  have "\<forall>m\<in>set (fifo_matches spending_amount (pending self asset)).
          \<exists>a\<in>set (pending self asset). event (m_event m) = event a"
    using fifo_matches_events by blast
  then show ?thesis unfolding res by (simp add: fifo_info_def)
qed

subsection \<open>What reduce\_asset\_amount does to the ledgers\<close>

lemma same_key_ledger:
  assumes "events_key b = events_key asset"
  shows "pending self b = pending self asset" "used self b = used self asset"
    "spent self b = spent self asset"
  using assms by (simp_all add: pending_def used_def spent_def)

lemma other_key_ledger:
  assumes "events self' (events_key b) = events self (events_key b)"
  shows "pending self' b = pending self b" "used self' b = used self b"
    "spent self' b = spent self b"
  using assms by (simp_all add: pending_def used_def spent_def)



lemma reduce_asset_amount_returns:
  assumes "0 < amount" "\<forall>a\<in>set (pending self asset). 0 \<le> remaining_amount a"
  shows "\<exists>self'. reduce_asset_amount self asset amount timestamp =
           Inr (amount \<le> total_remaining (pending self asset), self')"
proof (cases "pending self asset = []")
  case True
  from reduce_asset_amount_no_lots[OF True, of amount timestamp] assms(1) True
  show ?thesis by auto
next
  case False
  from reduce_asset_amount_fifo[OF refl False, of amount timestamp] assms(1)
    fifo_complete_iff[OF assms(2) False, of amount]
  show ?thesis by auto
qed

lemma reduce_asset_amount_critical:
  assumes "pending self asset \<noteq> []" "amount \<noteq> 0"
    and "reduce_asset_amount self asset amount timestamp = Inr (False, self')"
  shows "log_records self' = log_records self @ [Critical_no_documented_buy asset timestamp]"
  using reduce_asset_amount_fifo[OF refl assms(1,2), of timestamp] assms(3)
  by (auto split: if_splits)

subsection \<open>spend\_asset\<close>

lemma spend_asset_recorded:
  assumes "get_events self asset = (e, s1)"
  shows "pending (put_events s1 asset (e\<lparr>spends := spends e @ [ev]\<rparr>)) b = pending self b"
    "used (put_events s1 asset (e\<lparr>spends := spends e @ [ev]\<rparr>)) b = used self b"
    "spent (put_events s1 asset (e\<lparr>spends := spends e @ [ev]\<rparr>)) b =
       (if events_key b = events_key asset then spent self b @ [ev] else spent self b)"
    "settings (put_events s1 asset (e\<lparr>spends := spends e @ [ev]\<rparr>)) = settings self"
    "msg_aggregator (put_events s1 asset (e\<lparr>spends := spends e @ [ev]\<rparr>)) = msg_aggregator self"
    "log_records (put_events s1 asset (e\<lparr>spends := spends e @ [ev]\<rparr>)) = log_records self"
  using get_events_eq[OF assms(1)]
  by (auto simp add: put_events_def pending_def used_def spent_def)

lemma spend_asset_taxable:
  assumes "\<not> is_fiat c asset" "pending self asset \<noteq> []"
  shows "\<exists>self'.
     spend_asset c self location timestamp asset amount rate True =
       Inr (Some (fifo_info (settings self) timestamp amount (pending self asset)), self') \<and>
     pending self' asset = fifo_pending amount (pending self asset) \<and>
     used self' asset = used self asset @ fifo_used amount (pending self asset) \<and>
     spent self' asset = spent self asset @
       [\<lparr>spend_timestamp = timestamp, spend_location = location,
         spend_amount = amount, spend_rate = rate\<rparr>]"
proof -
  obtain e s1 where g: "get_events self asset = (e, s1)" by (cases "get_events self asset")
  let ?ev = "\<lparr>spend_timestamp = timestamp, spend_location = location,
         spend_amount = amount, spend_rate = rate\<rparr>"
  let ?s2 = "put_events s1 asset (e\<lparr>spends := spends e @ [?ev]\<rparr>)"
  note rec = spend_asset_recorded[OF g, of ?ev]
  have p2: "pending ?s2 asset = pending self asset" by (rule rec(1))
  have ne: "pending self asset \<noteq> []" by (rule assms(2))
  from calculate_spend_cost_basis_fifo[OF p2 ne, of amount timestamp]
  obtain self' where
    res: "calculate_spend_cost_basis ?s2 amount asset timestamp =
       Inr (fifo_info (settings ?s2) timestamp amount (pending self asset), self')"
    and p: "pending self' asset = fifo_pending amount (pending self asset)"
    and u: "used self' asset = used ?s2 asset @ fifo_used amount (pending self asset)"
    and s: "spent self' asset = spent ?s2 asset"
    by blast
  have "spend_asset c self location timestamp asset amount rate True =
       Inr (Some (fifo_info (settings self) timestamp amount (pending self asset)), self')"
    using assms(1) by (simp add: spend_asset_def g res rec(4))
  moreover have "used self' asset = used self asset @ fifo_used amount (pending self asset)"
    using u by (simp only: rec(2))
  moreover have "spent self' asset = spent self asset @ [?ev]"
    using s rec(3)[of asset] by simp
  ultimately show ?thesis using p by (intro exI[of _ self']) simp
qed

subsection \<open>The lot invariant\<close>

text \<open>
  A new calculator has the invariant, \<open>obtain_asset\<close> keeps it for an event with a
  positive amount, and the two operations that take from the lots keep it for every
  amount: a lot that stays pending after a partial use holds what the scan left of it,
  which is positive.
\<close>

lemma new_calculator_positive: "lots_positive (pending (new_CostBasisCalculator st) asset)"
  by (simp add: lots_positive_def)

lemma obtain_asset_positive:
  assumes "0 < ev_taxable_amount ev" "\<forall>asset. lots_positive (pending self asset)"
  shows "lots_positive (pending (obtain_asset self ev) asset)"
  using assms by (simp add: obtain_asset_ledger lots_positive_def new_AssetAcquisitionEvent_def)

lemma fifo_pending_positive:
  assumes "lots_positive lots"
  shows "lots_positive (fifo_pending amount lots)"
proof (cases "fifo_stop amount lots < length lots")
  case True
  let ?k = "fifo_stop amount lots"
  have "0 < remaining_amount (lots ! ?k) - (amount - total_remaining (take ?k lots))"
    using fifo_stop_less[OF True] by simp
  moreover have "list_all (\<lambda>a. 0 < remaining_amount a) (drop (Suc ?k) lots)"
    using assms by (auto simp add: lots_positive_def list_all_iff dest: in_set_dropD)
  ultimately show ?thesis using True by (simp add: fifo_pending_def lots_positive_def Let_def)
next
  case False
  then show ?thesis by (simp add: fifo_pending_def lots_positive_def)
qed

lemma calculate_spend_cost_basis_positive:
  assumes "\<forall>b. lots_positive (pending self b)"
  shows "\<exists>info self'.
     calculate_spend_cost_basis self spending_amount asset timestamp = Inr (info, self') \<and>
     (\<forall>b. lots_positive (pending self' b))"
proof (cases "pending self asset = []")
  case True
  from calculate_spend_cost_basis_no_lots[OF True, of spending_amount timestamp]
  obtain self' where
    "calculate_spend_cost_basis self spending_amount asset timestamp =
       Inr (\<lparr>taxable_amount = spending_amount, taxable_bought_cost = 0,
             taxfree_bought_cost = 0, matched_acquisitions = [], is_complete = False\<rparr>, self')"
    "\<forall>b. pending self' b = pending self b \<and> used self' b = used self b \<and> spent self' b = spent self b"
    by blast
  then show ?thesis using assms by (intro exI[of _ _] exI[of _ self']) simp
next
  case False
  from calculate_spend_cost_basis_fifo[OF refl False, of spending_amount timestamp]
  obtain self' where
    res: "calculate_spend_cost_basis self spending_amount asset timestamp =
       Inr (fifo_info (settings self) timestamp spending_amount (pending self asset), self')"
    and p: "pending self' asset = fifo_pending spending_amount (pending self asset)"
    and fr: "\<forall>key. key \<noteq> events_key asset \<longrightarrow> events self' key = events self key"
    by blast
  have "lots_positive (pending self' b)" for b
  proof (cases "events_key b = events_key asset")
    case True
    have "lots_positive (pending self' asset)"
      unfolding p using assms by (intro fifo_pending_positive) simp
    then show ?thesis using same_key_ledger(1)[OF True, of self'] by simp
  next
    case False
    then have "events self' (events_key b) = events self (events_key b)" using fr by simp
    from other_key_ledger(1)[OF this] assms show ?thesis by simp
  qed
  then show ?thesis using res by (intro exI[of _ _] exI[of _ self']) simp
qed

lemma reduce_asset_amount_positive:
  assumes "\<forall>b. lots_positive (pending self b)"
  shows "\<exists>ok self'.
     reduce_asset_amount self asset amount timestamp = Inr (ok, self') \<and>
     (\<forall>b. lots_positive (pending self' b))"
proof (cases "amount = 0")
  case True
  then show ?thesis using assms by (auto simp add: reduce_asset_amount_def)
next
  case nz: False
  show ?thesis
  proof (cases "pending self asset = []")
    case True
    from reduce_asset_amount_no_lots[OF True nz, of timestamp]
    obtain self' where "reduce_asset_amount self asset amount timestamp = Inr (False, self')"
      "\<forall>b. pending self' b = pending self b \<and> used self' b = used self b \<and> spent self' b = spent self b"
      by blast
    then show ?thesis using assms by (intro exI[of _ False] exI[of _ self']) simp
  next
    case False
    from reduce_asset_amount_fifo[OF refl False nz, of timestamp]
    obtain self' where res: "reduce_asset_amount self asset amount timestamp =
        Inr (fifo_complete amount (pending self asset), self')"
      and p: "pending self' asset = fifo_pending amount (pending self asset)"
      and fr: "\<forall>key. key \<noteq> events_key asset \<longrightarrow> events self' key = events self key"
      by blast
    have "lots_positive (pending self' b)" for b
    proof (cases "events_key b = events_key asset")
      case True
      have "lots_positive (pending self' asset)"
        unfolding p using assms by (intro fifo_pending_positive) simp
      then show ?thesis using same_key_ledger(1)[OF True, of self'] by simp
    next
      case False
      then have "events self' (events_key b) = events self (events_key b)" using fr by simp
      from other_key_ledger(1)[OF this] assms show ?thesis by simp
    qed
    then show ?thesis using res by (intro exI[of _ _] exI[of _ self']) simp
  qed
qed

subsection \<open>Outcomes of a call at a given state\<close>

text \<open>
  The outcome of \<^verbatim>\<open>calculate_spend_cost_basis\<close> on an asset with pending lots, read through
  the observers: the result, the pending and the used lots and the messages are those of
  the first-in-first-out scan.
\<close>

lemma calculate_spend_cost_basis_after:
  assumes "pending self asset \<noteq> []"
  shows "returned (calculate_spend_cost_basis self amount asset timestamp) =
           Some (fifo_info (settings self) timestamp amount (pending self asset))"
    and "pending_after asset (calculate_spend_cost_basis self amount asset timestamp) =
           Some (fifo_pending amount (pending self asset))"
    and "used_after asset (calculate_spend_cost_basis self amount asset timestamp) =
           Some (used self asset @ fifo_used amount (pending self asset))"
    and "messages_after (calculate_spend_cost_basis self amount asset timestamp) =
           Some (msg_aggregator self @
                 fifo_messages (settings self) asset timestamp amount (pending self asset))"
proof -
  from calculate_spend_cost_basis_fifo[OF refl assms, of amount timestamp]
  obtain self' where
    res: "calculate_spend_cost_basis self amount asset timestamp =
       Inr (fifo_info (settings self) timestamp amount (pending self asset), self')"
    and p: "pending self' asset = fifo_pending amount (pending self asset)"
    and u: "used self' asset = used self asset @ fifo_used amount (pending self asset)"
    and m: "msg_aggregator self' = msg_aggregator self @
       fifo_messages (settings self) asset timestamp amount (pending self asset)"
    by blast
  show "returned (calculate_spend_cost_basis self amount asset timestamp) =
           Some (fifo_info (settings self) timestamp amount (pending self asset))"
    by (simp add: res returned_def)
  show "pending_after asset (calculate_spend_cost_basis self amount asset timestamp) =
           Some (fifo_pending amount (pending self asset))"
    by (simp add: res pending_after_def p)
  show "used_after asset (calculate_spend_cost_basis self amount asset timestamp) =
           Some (used self asset @ fifo_used amount (pending self asset))"
    by (simp add: res used_after_def u)
  show "messages_after (calculate_spend_cost_basis self amount asset timestamp) =
           Some (msg_aggregator self @
                 fifo_messages (settings self) asset timestamp amount (pending self asset))"
    by (simp add: res messages_after_def m)
qed

text \<open>A lot made from an example event holds the amount of the event.\<close>

lemma new_lot_simps [simp]:
  "remaining_amount (new_AssetAcquisitionEvent (example_event asset timestamp amount price)) = amount"
  "event (new_AssetAcquisitionEvent (example_event asset timestamp amount price)) =
     example_event asset timestamp amount price"
  by (simp_all add: new_AssetAcquisitionEvent_def example_event_def)


section \<open>The claims\<close>

text \<open>
  C1. When the asset has no pending lot at the start of the call,
  \<^verbatim>\<open>calculate_spend_cost_basis\<close> returns normally; the whole spend is taxable, both costs
  are zero, nothing is matched and the result is not complete. The message that no
  acquisition is documented goes to the message aggregator, and the lots and spend records
  of every asset are what they were.
\<close>

theorem C1_missing_acquisition:
  assumes "pending self spending_asset = []"
  shows "\<exists>self'.
     calculate_spend_cost_basis self spending_amount spending_asset timestamp =
       Inr (\<lparr>taxable_amount = spending_amount, taxable_bought_cost = 0,
             taxfree_bought_cost = 0, matched_acquisitions = [], is_complete = False\<rparr>, self') \<and>
     msg_aggregator self' =
       msg_aggregator self @ [No_documented_acquisition spending_asset timestamp] \<and>
     (\<forall>asset. pending self' asset = pending self asset \<and> used self' asset = used self asset \<and>
        spent self' asset = spent self asset)"
proof -
  from calculate_spend_cost_basis_no_lots[OF assms, of spending_amount timestamp]
  obtain self' where
    "calculate_spend_cost_basis self spending_amount spending_asset timestamp =
       Inr (\<lparr>taxable_amount = spending_amount, taxable_bought_cost = 0,
             taxfree_bought_cost = 0, matched_acquisitions = [], is_complete = False\<rparr>, self')"
    "msg_aggregator self' =
       msg_aggregator self @ [No_documented_acquisition spending_asset timestamp]"
    "\<forall>asset. pending self' asset = pending self asset \<and> used self' asset = used self asset \<and>
        spent self' asset = spent self asset"
    by blast
  then show ?thesis by (intro exI[of _ self']) simp
qed

theorem C1_missing_acquisition_witness:
  "\<exists>self'.
     calculate_spend_cost_basis (new_CostBasisCalculator example_settings) 5 A_BTC 1500000000 =
       Inr (\<lparr>taxable_amount = 5, taxable_bought_cost = 0,
             taxfree_bought_cost = 0, matched_acquisitions = [], is_complete = False\<rparr>, self') \<and>
     msg_aggregator self' = [No_documented_acquisition A_BTC 1500000000]"
proof -
  have h: "pending (new_CostBasisCalculator example_settings) A_BTC = []" by simp
  have m: "msg_aggregator (new_CostBasisCalculator example_settings) = []"
    by (simp add: new_CostBasisCalculator_def)
  from C1_missing_acquisition[OF h, of 5 1500000000] show ?thesis
    unfolding m by auto
qed

text \<open>
  C2. When the asset has exactly one pending lot, of remaining amount 10, a spend of 4
  returns normally and complete, with one matched entry of amount 4 for that lot; the lot
  stays pending with remaining amount 6, and nothing is added to the used lots.
\<close>

theorem C2_partial_lot_split:
  assumes "pending self asset = [lot]" "remaining_amount lot = 10"
  shows "\<exists>info self'.
     calculate_spend_cost_basis self 4 asset timestamp = Inr (info, self') \<and>
     pending self' asset = [lot\<lparr>remaining_amount := 6\<rparr>] \<and>
     used self' asset = used self asset \<and>
     matched_acquisitions info = [\<lparr>m_amount = 4, m_event = lot\<lparr>remaining_amount := 6\<rparr>\<rparr>] \<and>
     is_complete info"
proof -
  have k: "fifo_stop 4 [lot] = 0" using assms(2) by simp
  from calculate_spend_cost_basis_fifo[OF assms(1), of 4 timestamp]
  obtain self' where
    "calculate_spend_cost_basis self 4 asset timestamp = Inr (fifo_info (settings self) timestamp 4 [lot], self')"
    "pending self' asset = fifo_pending 4 [lot]"
    "used self' asset = used self asset @ fifo_used 4 [lot]"
    by auto
  then show ?thesis
    using assms(2)
    by (simp add: fifo_info_def fifo_pending_def fifo_used_def fifo_matches_def fifo_complete_def k)
qed

theorem C2_partial_lot_split_witness:
  "\<exists>info self'.
     calculate_spend_cost_basis
       (obtain_asset (new_CostBasisCalculator example_settings) (example_event A_BTC 1500000000 10 100))
       4 A_BTC 1500000100 = Inr (info, self') \<and>
     pending self' A_BTC =
       [\<lparr>event = example_event A_BTC 1500000000 10 100, remaining_amount = 6\<rparr>] \<and>
     matched_acquisitions info =
       [\<lparr>m_amount = 4,
         m_event = \<lparr>event = example_event A_BTC 1500000000 10 100, remaining_amount = 6\<rparr>\<rparr>] \<and>
     is_complete info"
proof -
  let ?lot = "new_AssetAcquisitionEvent (example_event A_BTC 1500000000 10 100)"
  have h1: "pending (obtain_asset (new_CostBasisCalculator example_settings)
                       (example_event A_BTC 1500000000 10 100)) A_BTC = [?lot]"
    by (simp add: obtain_asset_ledger example_event_def)
  have h2: "remaining_amount ?lot = 10"
    by (simp add: new_AssetAcquisitionEvent_def example_event_def)
  from C2_partial_lot_split[OF h1 h2, of 1500000100] show ?thesis
    by (auto simp add: new_AssetAcquisitionEvent_def example_event_def)
qed

text \<open>
  C3, with the conditions on the lots that it needs. When the asset has at least three
  pending lots, the remaining amount of the second is not negative and that of the third
  is positive, and the spend is the sum of the remaining amounts of the two oldest, both
  are used up: they are appended to the used lots with remaining amount zero and leave the
  pending lots, the third lot is the head of the pending lots with its remaining amount
  unchanged, and the result is complete. The source enforces neither condition:
  \<^verbatim>\<open>obtain_asset\<close> takes any amount.
\<close>

theorem C3_full_lot_exhaustion:
  assumes "pending self asset = lot1 # lot2 # lot3 # rest"
    and "0 \<le> remaining_amount lot2" "0 < remaining_amount lot3"
  shows "\<exists>info self'.
     calculate_spend_cost_basis self (remaining_amount lot1 + remaining_amount lot2) asset timestamp =
       Inr (info, self') \<and>
     used self' asset =
       used self asset @ [lot1\<lparr>remaining_amount := 0\<rparr>, lot2\<lparr>remaining_amount := 0\<rparr>] \<and>
     pending self' asset = lot3 # rest \<and>
     is_complete info"
proof -
  let ?amt = "remaining_amount lot1 + remaining_amount lot2"
  let ?lots = "lot1 # lot2 # lot3 # rest"
  have k: "fifo_stop ?amt ?lots = 2" using assms(2,3) by simp
  have ne: "?lots \<noteq> []" by simp
  from calculate_spend_cost_basis_fifo[OF assms(1) ne, of ?amt timestamp]
  obtain self' where
    "calculate_spend_cost_basis self ?amt asset timestamp = Inr (fifo_info (settings self) timestamp ?amt ?lots, self')"
    "pending self' asset = fifo_pending ?amt ?lots"
    "used self' asset = used self asset @ fifo_used ?amt ?lots"
    by auto
  then show ?thesis
    by (simp add: fifo_info_def fifo_pending_def fifo_used_def fifo_complete_def k used_up_def
        del: fifo_stop.simps)
qed

theorem C3_full_lot_exhaustion_witness:
  "\<exists>info self'.
     calculate_spend_cost_basis
       (obtain_asset (obtain_asset (obtain_asset (new_CostBasisCalculator example_settings)
          (example_event A_BTC 1500000000 1 100))
          (example_event A_BTC 1500000100 2 110))
          (example_event A_BTC 1500000200 5 120))
       3 A_BTC 1500000300 = Inr (info, self') \<and>
     used self' A_BTC =
       [\<lparr>event = example_event A_BTC 1500000000 1 100, remaining_amount = 0\<rparr>,
        \<lparr>event = example_event A_BTC 1500000100 2 110, remaining_amount = 0\<rparr>] \<and>
     pending self' A_BTC = [\<lparr>event = example_event A_BTC 1500000200 5 120, remaining_amount = 5\<rparr>] \<and>
     is_complete info"
proof -
  let ?l1 = "new_AssetAcquisitionEvent (example_event A_BTC 1500000000 1 100)"
  let ?l2 = "new_AssetAcquisitionEvent (example_event A_BTC 1500000100 2 110)"
  let ?l3 = "new_AssetAcquisitionEvent (example_event A_BTC 1500000200 5 120)"
  let ?s = "obtain_asset (obtain_asset (obtain_asset (new_CostBasisCalculator example_settings)
          (example_event A_BTC 1500000000 1 100))
          (example_event A_BTC 1500000100 2 110))
          (example_event A_BTC 1500000200 5 120)"
  have h1: "pending ?s A_BTC = ?l1 # ?l2 # ?l3 # []"
    by (simp add: obtain_asset_ledger example_event_def)
  have h2: "0 \<le> remaining_amount ?l2" "0 < remaining_amount ?l3"
    by (simp_all add: new_AssetAcquisitionEvent_def example_event_def)
  have u: "used ?s A_BTC = []" by (simp add: obtain_asset_ledger)
  from C3_full_lot_exhaustion[OF h1 h2, of 1500000300] show ?thesis
    unfolding u by (auto simp add: new_AssetAcquisitionEvent_def example_event_def)
qed

text \<open>
  The two conditions on the lots cannot be dropped. With pending lots of 1, 2 and 0 and a
  spend of 3, the third lot does not pass the test of line 393 (0 < 0) and is taken by the
  whole-lot branch as well: all three lots are moved to the used lots and no lot stays
  pending.
\<close>

theorem C3_full_lot_exhaustion_counterexample:
  "pending
     (obtain_asset (obtain_asset (obtain_asset (new_CostBasisCalculator example_settings)
        (example_event A_BTC 1500000000 1 100))
        (example_event A_BTC 1500000100 2 110))
        (example_event A_BTC 1500000200 0 120)) A_BTC =
     [\<lparr>event = example_event A_BTC 1500000000 1 100, remaining_amount = 1\<rparr>,
      \<lparr>event = example_event A_BTC 1500000100 2 110, remaining_amount = 2\<rparr>,
      \<lparr>event = example_event A_BTC 1500000200 0 120, remaining_amount = 0\<rparr>] \<and>
   pending_after A_BTC
     (calculate_spend_cost_basis
        (obtain_asset (obtain_asset (obtain_asset (new_CostBasisCalculator example_settings)
           (example_event A_BTC 1500000000 1 100))
           (example_event A_BTC 1500000100 2 110))
           (example_event A_BTC 1500000200 0 120))
        3 A_BTC 1500000300) = Some [] \<and>
   used_after A_BTC
     (calculate_spend_cost_basis
        (obtain_asset (obtain_asset (obtain_asset (new_CostBasisCalculator example_settings)
           (example_event A_BTC 1500000000 1 100))
           (example_event A_BTC 1500000100 2 110))
           (example_event A_BTC 1500000200 0 120))
        3 A_BTC 1500000300) =
     Some [\<lparr>event = example_event A_BTC 1500000000 1 100, remaining_amount = 0\<rparr>,
           \<lparr>event = example_event A_BTC 1500000100 2 110, remaining_amount = 0\<rparr>,
           \<lparr>event = example_event A_BTC 1500000200 0 120, remaining_amount = 0\<rparr>]"
proof -
  let ?l1 = "new_AssetAcquisitionEvent (example_event A_BTC 1500000000 1 100)"
  let ?l2 = "new_AssetAcquisitionEvent (example_event A_BTC 1500000100 2 110)"
  let ?l3 = "new_AssetAcquisitionEvent (example_event A_BTC 1500000200 0 120)"
  let ?s = "obtain_asset (obtain_asset (obtain_asset (new_CostBasisCalculator example_settings)
        (example_event A_BTC 1500000000 1 100))
        (example_event A_BTC 1500000100 2 110))
        (example_event A_BTC 1500000200 0 120)"
  have p: "pending ?s A_BTC = [?l1, ?l2, ?l3]"
    by (simp add: obtain_asset_ledger example_event_def)
  have ne: "pending ?s A_BTC \<noteq> []" unfolding p by simp
  have u: "used ?s A_BTC = []" by (simp add: obtain_asset_ledger)
  have k: "fifo_stop 3 [?l1, ?l2, ?l3] = 3" by simp
  have 1: "pending ?s A_BTC =
     [\<lparr>event = example_event A_BTC 1500000000 1 100, remaining_amount = 1\<rparr>,
      \<lparr>event = example_event A_BTC 1500000100 2 110, remaining_amount = 2\<rparr>,
      \<lparr>event = example_event A_BTC 1500000200 0 120, remaining_amount = 0\<rparr>]"
    unfolding p by (simp add: new_AssetAcquisitionEvent_def example_event_def)
  have 2: "pending_after A_BTC (calculate_spend_cost_basis ?s 3 A_BTC 1500000300) = Some []"
    unfolding calculate_spend_cost_basis_after(2)[OF ne] p
    by (simp add: fifo_pending_def k del: fifo_stop.simps)
  have 3: "used_after A_BTC (calculate_spend_cost_basis ?s 3 A_BTC 1500000300) =
     Some [\<lparr>event = example_event A_BTC 1500000000 1 100, remaining_amount = 0\<rparr>,
           \<lparr>event = example_event A_BTC 1500000100 2 110, remaining_amount = 0\<rparr>,
           \<lparr>event = example_event A_BTC 1500000200 0 120, remaining_amount = 0\<rparr>]"
  proof -
    have "fifo_used 3 [?l1, ?l2, ?l3] = [used_up ?l1, used_up ?l2, used_up ?l3]"
      by (simp add: fifo_used_def k del: fifo_stop.simps)
    then show ?thesis
      unfolding calculate_spend_cost_basis_after(3)[OF ne] p u
      by (simp add: used_up_def new_AssetAcquisitionEvent_def)
  qed
  from 1 2 3 show ?thesis by (intro conjI)
qed

text \<open>
  C4. A matched lot counts as tax-free exactly when a tax-free period is set and the
  time of the lot plus the period is before the time of the spend. The tax-free cost of
  the result is the cost of the matched entries on the tax-free side and the taxable cost
  that of the others; the taxable amount of a complete result is the amount of the
  others, that of a result that is not complete the spend minus the amount on the
  tax-free side. With period \<open>period\<close> and every pending lot acquired at \<open>t0\<close>, a spend
  at \<open>t0 + period + 1\<close> has taxable cost zero, and taxable amount zero when complete;
  a spend at \<open>t0 + period - 1\<close> has tax-free cost zero and all that is matched is
  taxable. In both cases the other cost is the cost of all matched entries.
\<close>

theorem C4_taxfree_after_period:
  "\<exists>info self'.
     calculate_spend_cost_basis self spending_amount asset timestamp = Inr (info, self') \<and>
     (\<forall>m\<in>set (matched_acquisitions info).
        at_taxfree_period (settings self) (m_event m) timestamp \<longleftrightarrow>
        (\<exists>period. taxfree_after_period (settings self) = Some period \<and>
                   acq_timestamp (m_event m) + period < timestamp)) \<and>
     taxfree_bought_cost info =
       sum_list (map matched_cost
         (filter (\<lambda>m. at_taxfree_period (settings self) (m_event m) timestamp) (matched_acquisitions info))) \<and>
     taxable_bought_cost info =
       sum_list (map matched_cost
         (filter (\<lambda>m. \<not> at_taxfree_period (settings self) (m_event m) timestamp) (matched_acquisitions info))) \<and>
     taxable_amount info =
       (if is_complete info
        then sum_list (map m_amount
               (filter (\<lambda>m. \<not> at_taxfree_period (settings self) (m_event m) timestamp)
                  (matched_acquisitions info)))
        else spending_amount -
             sum_list (map m_amount
               (filter (\<lambda>m. at_taxfree_period (settings self) (m_event m) timestamp)
                  (matched_acquisitions info)))) \<and>
     (\<forall>period t0.
        taxfree_after_period (settings self) = Some period \<and>
        (\<forall>a\<in>set (pending self asset). acq_timestamp a = t0) \<longrightarrow>
        (timestamp = t0 + period + 1 \<longrightarrow>
           taxable_bought_cost info = 0 \<and>
           taxfree_bought_cost info = sum_list (map matched_cost (matched_acquisitions info)) \<and>
           taxable_amount info =
             (if is_complete info then 0
              else spending_amount - sum_list (map m_amount (matched_acquisitions info)))) \<and>
        (timestamp = t0 + period - 1 \<longrightarrow>
           taxfree_bought_cost info = 0 \<and>
           taxable_bought_cost info = sum_list (map matched_cost (matched_acquisitions info)) \<and>
           taxable_amount info =
             (if is_complete info then sum_list (map m_amount (matched_acquisitions info))
              else spending_amount)))"
proof -
  from calculate_spend_cost_basis_classified[of self spending_amount asset timestamp]
  obtain info self' where
    res: "calculate_spend_cost_basis self spending_amount asset timestamp = Inr (info, self')"
    and sub: "\<forall>m\<in>set (matched_acquisitions info).
        \<exists>a\<in>set (pending self asset). event (m_event m) = event a"
    and free: "taxfree_bought_cost info =
       sum_list (map matched_cost (taxfree_matches (settings self) timestamp (matched_acquisitions info)))"
    and taxable: "taxable_bought_cost info =
       sum_list (map matched_cost (taxable_matches (settings self) timestamp (matched_acquisitions info)))"
    and amount: "taxable_amount info =
       (if is_complete info
        then sum_list (map m_amount (taxable_matches (settings self) timestamp (matched_acquisitions info)))
        else spending_amount -
             sum_list (map m_amount (taxfree_matches (settings self) timestamp (matched_acquisitions info))))"
    by blast
  let ?ms = "matched_acquisitions info"
  let ?free = "\<lambda>m. at_taxfree_period (settings self) (m_event m) timestamp"
  have boundary: "(timestamp = t0 + period + 1 \<longrightarrow>
           taxable_bought_cost info = 0 \<and>
           taxfree_bought_cost info = sum_list (map matched_cost ?ms) \<and>
           taxable_amount info =
             (if is_complete info then 0 else spending_amount - sum_list (map m_amount ?ms))) \<and>
        (timestamp = t0 + period - 1 \<longrightarrow>
           taxfree_bought_cost info = 0 \<and>
           taxable_bought_cost info = sum_list (map matched_cost ?ms) \<and>
           taxable_amount info =
             (if is_complete info then sum_list (map m_amount ?ms) else spending_amount))"
    if p: "taxfree_after_period (settings self) = Some period"
      and t0: "\<forall>a\<in>set (pending self asset). acq_timestamp a = t0" for period t0
  proof (intro conjI impI)
    assume ts: "timestamp = t0 + period + 1"
    have "\<forall>m\<in>set ?ms. acq_timestamp (m_event m) = t0"
      using sub t0 by (fastforce simp add: acq_timestamp_def)
    then have "\<forall>m\<in>set ?ms. ?free m"
      using p ts by (simp add: at_taxfree_period_def)
    then have f: "filter ?free ?ms = ?ms" "filter (\<lambda>m. \<not> ?free m) ?ms = []"
      by simp_all
    show "taxable_bought_cost info = 0" using taxable f by (simp add: taxable_matches_def)
    show "taxfree_bought_cost info = sum_list (map matched_cost ?ms)"
      using free f by (simp add: taxfree_matches_def)
    show "taxable_amount info =
        (if is_complete info then 0 else spending_amount - sum_list (map m_amount ?ms))"
      using amount f by (simp add: taxable_matches_def taxfree_matches_def)
  next
    assume ts: "timestamp = t0 + period - 1"
    have "\<forall>m\<in>set ?ms. acq_timestamp (m_event m) = t0"
      using sub t0 by (fastforce simp add: acq_timestamp_def)
    then have "\<forall>m\<in>set ?ms. \<not> ?free m"
      using p ts by (simp add: at_taxfree_period_def)
    then have f: "filter ?free ?ms = []" "filter (\<lambda>m. \<not> ?free m) ?ms = ?ms"
      by simp_all
    show "taxfree_bought_cost info = 0" using free f by (simp add: taxfree_matches_def)
    show "taxable_bought_cost info = sum_list (map matched_cost ?ms)"
      using taxable f by (simp add: taxable_matches_def)
    show "taxable_amount info =
        (if is_complete info then sum_list (map m_amount ?ms) else spending_amount)"
      using amount f by (simp add: taxable_matches_def taxfree_matches_def)
  qed
  have crit: "\<forall>m\<in>set ?ms. ?free m \<longleftrightarrow>
        (\<exists>period. taxfree_after_period (settings self) = Some period \<and>
                   acq_timestamp (m_event m) + period < timestamp)"
    by (simp add: at_taxfree_period_iff)
  show ?thesis
    apply (rule exI[of _ info], rule exI[of _ self'])
    apply (intro conjI)
         apply (rule res)
        apply (rule crit)
       apply (rule free[unfolded taxfree_matches_def])
      apply (rule taxable[unfolded taxable_matches_def])
     apply (rule amount[unfolded taxfree_matches_def taxable_matches_def])
    apply (intro allI impI)
    apply (rule boundary)
     apply simp_all
    done
qed

theorem C4_taxfree_after_period_witness:
  "(\<exists>info self'.
      calculate_spend_cost_basis
        (obtain_asset (new_CostBasisCalculator example_settings) (example_event A_BTC 1500000000 10 100))
        4 A_BTC (1500000000 + 31536000 + 1) = Inr (info, self') \<and>
      taxable_bought_cost info = 0 \<and> taxfree_bought_cost info = 400 \<and> taxable_amount info = 0) \<and>
   (\<exists>info self'.
      calculate_spend_cost_basis
        (obtain_asset (new_CostBasisCalculator example_settings) (example_event A_BTC 1500000000 10 100))
        4 A_BTC (1500000000 + 31536000 - 1) = Inr (info, self') \<and>
      taxable_bought_cost info = 400 \<and> taxfree_bought_cost info = 0 \<and> taxable_amount info = 4)"
proof -
  let ?lot = "new_AssetAcquisitionEvent (example_event A_BTC 1500000000 10 100)"
  let ?s = "obtain_asset (new_CostBasisCalculator example_settings) (example_event A_BTC 1500000000 10 100)"
  have p: "pending ?s A_BTC = [?lot]" by (simp add: obtain_asset_ledger example_event_def)
  have st: "taxfree_after_period (settings ?s) = Some 31536000"
    by (simp add: obtain_asset_ledger new_CostBasisCalculator_def example_settings_def)
  have t0: "\<forall>a\<in>set (pending ?s A_BTC). acq_timestamp a = 1500000000"
    unfolding p by (simp add: acq_timestamp_def new_AssetAcquisitionEvent_def example_event_def)
  have k: "fifo_stop 4 [?lot] = 0" by (simp add: new_AssetAcquisitionEvent_def example_event_def)
  have r: "remaining_amount ?lot = 10" by (simp add: new_AssetAcquisitionEvent_def example_event_def)
  have ms: "fifo_matches 4 [?lot] = [\<lparr>m_amount = 4, m_event = ?lot\<lparr>remaining_amount := 6\<rparr>\<rparr>]"
    by (simp add: fifo_matches_def k r del: fifo_stop.simps)
  have co: "fifo_complete 4 [?lot]" by (simp add: fifo_complete_def k del: fifo_stop.simps)
  have cost: "matched_cost \<lparr>m_amount = 4, m_event = ?lot\<lparr>remaining_amount := 6\<rparr>\<rparr> = 400"
    by (simp add: matched_cost_def acq_rate_def new_AssetAcquisitionEvent_def example_event_def)
  have shape: "matched_acquisitions info = [\<lparr>m_amount = 4, m_event = ?lot\<lparr>remaining_amount := 6\<rparr>\<rparr>] \<and>
      is_complete info"
    if "calculate_spend_cost_basis ?s 4 A_BTC ts = Inr (info, self')" for ts info self'
  proof -
    from calculate_spend_cost_basis_fifo[OF p, of 4 ts] that
    have "info = fifo_info (settings ?s) ts 4 [?lot]" by auto
    then show ?thesis by (simp add: fifo_info_def ms co)
  qed
  from C4_taxfree_after_period[of ?s 4 A_BTC "1500000000 + 31536000 + 1"]
  obtain info1 self1 where
    r1: "calculate_spend_cost_basis ?s 4 A_BTC (1500000000 + 31536000 + 1) = Inr (info1, self1)"
    and b1: "\<forall>period t0.
        taxfree_after_period (settings ?s) = Some period \<and>
        (\<forall>a\<in>set (pending ?s A_BTC). acq_timestamp a = t0) \<longrightarrow>
        (1500000000 + 31536000 + 1 = t0 + period + 1 \<longrightarrow>
           taxable_bought_cost info1 = 0 \<and>
           taxfree_bought_cost info1 = sum_list (map matched_cost (matched_acquisitions info1)) \<and>
           taxable_amount info1 =
             (if is_complete info1 then 0
              else 4 - sum_list (map m_amount (matched_acquisitions info1))))"
    by blast
  from b1[rule_format, of 31536000 1500000000] st t0 shape[OF r1] cost
  have 1: "taxable_bought_cost info1 = 0 \<and> taxfree_bought_cost info1 = 400 \<and> taxable_amount info1 = 0"
    by simp
  from C4_taxfree_after_period[of ?s 4 A_BTC "1500000000 + 31536000 - 1"]
  obtain info2 self2 where
    r2: "calculate_spend_cost_basis ?s 4 A_BTC (1500000000 + 31536000 - 1) = Inr (info2, self2)"
    and b2: "\<forall>period t0.
        taxfree_after_period (settings ?s) = Some period \<and>
        (\<forall>a\<in>set (pending ?s A_BTC). acq_timestamp a = t0) \<longrightarrow>
        (1500000000 + 31536000 - 1 = t0 + period - 1 \<longrightarrow>
           taxfree_bought_cost info2 = 0 \<and>
           taxable_bought_cost info2 = sum_list (map matched_cost (matched_acquisitions info2)) \<and>
           taxable_amount info2 =
             (if is_complete info2 then sum_list (map m_amount (matched_acquisitions info2))
              else 4))"
    by blast
  from b2[rule_format, of 31536000 1500000000] st t0 shape[OF r2] cost
  have 2: "taxable_bought_cost info2 = 400 \<and> taxfree_bought_cost info2 = 0 \<and> taxable_amount info2 = 4"
    by simp
  from r1 1 r2 2 show ?thesis by blast
qed

text \<open>
  C5, with the condition on the lots that it needs. When the pending lots are not empty,
  none of them holds a negative amount and they hold less than the spend in total, the
  call returns normally and not complete; the message to the aggregator names the amount
  found and the amount missing, the taxable amount is the spend minus the amount of the
  lots on the tax-free side, and the matched entries are the pending lots, each with its
  whole remaining amount, so that they add up to the amount found. The source does not
  enforce the condition: \<^verbatim>\<open>obtain_asset\<close> takes any amount.
\<close>

theorem C5_partial_missing:
  assumes "pending self asset = lots" "lots \<noteq> []"
    and "\<forall>a\<in>set lots. 0 \<le> remaining_amount a"
    and "total_remaining lots < spending_amount"
  shows "\<exists>info self'.
     calculate_spend_cost_basis self spending_amount asset timestamp = Inr (info, self') \<and>
     msg_aggregator self' = msg_aggregator self @
       [Not_enough_documented_acquisitions asset timestamp
          (total_remaining lots) (Some (spending_amount - total_remaining lots))] \<and>
     taxable_amount info = spending_amount -
       sum_list (map remaining_amount
         (filter (\<lambda>a. at_taxfree_period (settings self) a timestamp) lots)) \<and>
     \<not> is_complete info \<and>
     matched_acquisitions info =
       map (\<lambda>a. \<lparr>m_amount = remaining_amount a, m_event = a\<lparr>remaining_amount := 0\<rparr>\<rparr>) lots \<and>
     sum_list (map m_amount (matched_acquisitions info)) = total_remaining lots"
proof -
  have k: "fifo_stop spending_amount lots = length lots"
    using assms(3,4) by (intro fifo_stop_exhausted) simp_all
  have co: "\<not> fifo_complete spending_amount lots"
    using assms(4) by (simp add: fifo_complete_def k)
  have ms: "fifo_matches spending_amount lots = map full_match lots"
    by (rule fifo_matches_exhausted[OF k])
  have fm: "map full_match lots =
      map (\<lambda>a. \<lparr>m_amount = remaining_amount a, m_event = a\<lparr>remaining_amount := 0\<rparr>\<rparr>) lots"
    by (simp add: full_match_def)
  have tot: "sum_list (map m_amount (map full_match lots)) = total_remaining lots"
    by (simp add: total_remaining_def full_match_def comp_def)
  have found: "sum_list (map m_amount (taxable_matches (settings self) timestamp (map full_match lots))) +
      sum_list (map m_amount (taxfree_matches (settings self) timestamp (map full_match lots))) =
      total_remaining lots"
    using sum_list_filter_split[of m_amount
        "\<lambda>m. at_taxfree_period (settings self) (m_event m) timestamp" "map full_match lots"] tot
    by (simp add: taxable_matches_def taxfree_matches_def)
  from calculate_spend_cost_basis_fifo[OF assms(1,2), of spending_amount timestamp]
  obtain self' where
    res: "calculate_spend_cost_basis self spending_amount asset timestamp =
       Inr (fifo_info (settings self) timestamp spending_amount lots, self')"
    and msg: "msg_aggregator self' = msg_aggregator self @
       fifo_messages (settings self) asset timestamp spending_amount lots"
    by auto
  have "msg_aggregator self' = msg_aggregator self @
       [Not_enough_documented_acquisitions asset timestamp
          (total_remaining lots) (Some (spending_amount - total_remaining lots))]"
    using msg by (simp add: fifo_messages_def co ms found)
  moreover have "taxable_amount (fifo_info (settings self) timestamp spending_amount lots) =
     spending_amount - sum_list (map remaining_amount
         (filter (\<lambda>a. at_taxfree_period (settings self) a timestamp) lots))"
    by (simp add: fifo_info_def co ms taxfree_full_matches)
  moreover have "\<not> is_complete (fifo_info (settings self) timestamp spending_amount lots)"
    by (simp add: fifo_info_def co)
  moreover have "matched_acquisitions (fifo_info (settings self) timestamp spending_amount lots) =
     map (\<lambda>a. \<lparr>m_amount = remaining_amount a, m_event = a\<lparr>remaining_amount := 0\<rparr>\<rparr>) lots"
    by (simp add: fifo_info_def ms fm)
  moreover have "sum_list (map m_amount (matched_acquisitions
       (fifo_info (settings self) timestamp spending_amount lots))) = total_remaining lots"
    using tot by (simp add: fifo_info_def ms)
  ultimately show ?thesis using res by blast
qed

theorem C5_partial_missing_witness:
  "\<exists>info self'.
     calculate_spend_cost_basis
       (obtain_asset (new_CostBasisCalculator example_settings) (example_event A_BTC 1500000000 5 100))
       8 A_BTC 1500000100 = Inr (info, self') \<and>
     msg_aggregator self' = [Not_enough_documented_acquisitions A_BTC 1500000100 5 (Some 3)] \<and>
     taxable_amount info = 8 \<and>
     \<not> is_complete info \<and>
     matched_acquisitions info =
       [\<lparr>m_amount = 5, m_event = \<lparr>event = example_event A_BTC 1500000000 5 100, remaining_amount = 0\<rparr>\<rparr>]"
proof -
  let ?lot = "new_AssetAcquisitionEvent (example_event A_BTC 1500000000 5 100)"
  let ?s = "obtain_asset (new_CostBasisCalculator example_settings) (example_event A_BTC 1500000000 5 100)"
  have h1: "pending ?s A_BTC = [?lot]" "[?lot] \<noteq> []"
    by (simp_all add: obtain_asset_ledger example_event_def)
  have h2: "\<forall>a\<in>set [?lot]. 0 \<le> remaining_amount a" "total_remaining [?lot] < 8"
    by (simp_all add: new_AssetAcquisitionEvent_def example_event_def)
  have m: "msg_aggregator ?s = []"
    by (simp add: obtain_asset_ledger new_CostBasisCalculator_def)
  have st: "settings ?s = example_settings"
    by (simp add: obtain_asset_ledger new_CostBasisCalculator_def)
  from C5_partial_missing[OF h1 h2, of 1500000100] show ?thesis
    unfolding m st
    by (auto simp add: new_AssetAcquisitionEvent_def example_event_def at_taxfree_period_def
        example_settings_def acq_timestamp_def)
qed

text \<open>
  The condition on the lots cannot be dropped. With pending lots of 5 and -3, which hold 2
  in total, and a spend of 3, the scan stops inside the first lot: the result is complete
  and no message is sent, although the lots hold less than the spend.
\<close>

theorem C5_partial_missing_counterexample:
  "total_remaining
     (pending (obtain_asset (obtain_asset (new_CostBasisCalculator example_settings)
        (example_event A_BTC 1500000000 5 100))
        (example_event A_BTC 1500000100 (-3) 110)) A_BTC) = 2 \<and>
   map_option is_complete (returned
     (calculate_spend_cost_basis
        (obtain_asset (obtain_asset (new_CostBasisCalculator example_settings)
           (example_event A_BTC 1500000000 5 100))
           (example_event A_BTC 1500000100 (-3) 110))
        3 A_BTC 1500000300)) = Some True \<and>
   messages_after
     (calculate_spend_cost_basis
        (obtain_asset (obtain_asset (new_CostBasisCalculator example_settings)
           (example_event A_BTC 1500000000 5 100))
           (example_event A_BTC 1500000100 (-3) 110))
        3 A_BTC 1500000300) = Some []"
proof -
  let ?l1 = "new_AssetAcquisitionEvent (example_event A_BTC 1500000000 5 100)"
  let ?l2 = "new_AssetAcquisitionEvent (example_event A_BTC 1500000100 (-3) 110)"
  let ?s = "obtain_asset (obtain_asset (new_CostBasisCalculator example_settings)
        (example_event A_BTC 1500000000 5 100))
        (example_event A_BTC 1500000100 (-3) 110)"
  have p: "pending ?s A_BTC = [?l1, ?l2]"
    by (simp add: obtain_asset_ledger example_event_def)
  have ne: "pending ?s A_BTC \<noteq> []" unfolding p by simp
  have m: "msg_aggregator ?s = []" by (simp add: obtain_asset_ledger new_CostBasisCalculator_def)
  have k: "fifo_stop 3 [?l1, ?l2] = 0" by simp
  have co: "fifo_complete 3 [?l1, ?l2]" by (simp add: fifo_complete_def k del: fifo_stop.simps)
  have 1: "total_remaining (pending ?s A_BTC) = 2" unfolding p by simp
  have 2: "map_option is_complete (returned (calculate_spend_cost_basis ?s 3 A_BTC 1500000300)) = Some True"
    unfolding calculate_spend_cost_basis_after(1)[OF ne] p
    by (simp add: fifo_info_def co)
  have 3: "messages_after (calculate_spend_cost_basis ?s 3 A_BTC 1500000300) = Some []"
    unfolding calculate_spend_cost_basis_after(4)[OF ne] p m
    by (simp add: fifo_messages_def co)
  from 1 2 3 show ?thesis by (intro conjI)
qed

text \<open>
  C6. With no pending lot for the asset and a non-zero amount, \<^verbatim>\<open>reduce_asset_amount\<close>
  returns \<^verbatim>\<open>False\<close> and hands nothing to the logger: here for a calculator that has just
  been created, the asset BTC and the amount 1.
\<close>

theorem C6_no_critical_log_without_lots:
  "\<exists>self'.
     reduce_asset_amount (new_CostBasisCalculator example_settings) A_BTC 1 1500000000 =
       Inr (False, self') \<and>
     log_records self' = []"
proof -
  have h: "pending (new_CostBasisCalculator example_settings) A_BTC = []" by simp
  have l: "log_records (new_CostBasisCalculator example_settings) = []"
    by (simp add: new_CostBasisCalculator_def)
  from reduce_asset_amount_no_lots[OF h, of 1 1500000000] show ?thesis
    unfolding l by auto
qed

text \<open>
  C7. \<^verbatim>\<open>reduce_asset_amount\<close> with amount zero returns \<^verbatim>\<open>True\<close> and the calculator it
  was given: no ledger is created or changed, nothing is logged.
\<close>

theorem C7_reduce_zero:
  "reduce_asset_amount self asset 0 timestamp = Inr (True, self)"
  by (simp add: reduce_asset_amount_def)




text \<open>
  C9. \<^verbatim>\<open>get_calculated_asset_amount\<close> returns \<^verbatim>\<open>None\<close> when the asset has no pending
  lot, whatever else its ledger holds, and otherwise the sum of the remaining amounts of
  the pending lots.
\<close>

theorem C9_calculated_asset_amount:
  "fst (get_calculated_asset_amount self asset) =
     (if pending self asset = [] then None else Some (total_remaining (pending self asset)))"
proof -
  obtain e s1 where g: "get_events self asset = (e, s1)" by (cases "get_events self asset")
  note ge = get_events_eq[OF g]
  show ?thesis
    by (simp add: get_calculated_asset_amount_def g ge(2) foldl_remaining)
qed

theorem C9_calculated_asset_amount_witness:
  "\<exists>info self'.
     spend_asset example_constants
       (obtain_asset (new_CostBasisCalculator example_settings) (example_event A_BTC 1500000000 1 100))
       ''kraken'' 1500000100 A_BTC 1 200 True = Inr (Some info, self') \<and>
     used self' A_BTC = [\<lparr>event = example_event A_BTC 1500000000 1 100, remaining_amount = 0\<rparr>] \<and>
     spent self' A_BTC =
       [\<lparr>spend_timestamp = 1500000100, spend_location = ''kraken'',
         spend_amount = 1, spend_rate = 200\<rparr>] \<and>
     fst (get_calculated_asset_amount self' A_BTC) = None \<and>
     fst (get_calculated_asset_amount
       (obtain_asset (new_CostBasisCalculator example_settings) (example_event A_BTC 1500000000 1 100))
       A_BTC) = Some 1"
proof -
  let ?lot = "new_AssetAcquisitionEvent (example_event A_BTC 1500000000 1 100)"
  let ?s = "obtain_asset (new_CostBasisCalculator example_settings) (example_event A_BTC 1500000000 1 100)"
  have p: "pending ?s A_BTC = [?lot]" by (simp add: obtain_asset_ledger example_event_def)
  have ne: "pending ?s A_BTC \<noteq> []" unfolding p by simp
  have nf: "\<not> is_fiat example_constants A_BTC" by (simp add: example_constants_def)
  have k: "fifo_stop 1 [?lot] = 1" by (simp add: new_AssetAcquisitionEvent_def example_event_def)
  from spend_asset_taxable[OF nf ne, of "''kraken''" 1500000100 1 200]
  obtain self' where
    res: "spend_asset example_constants ?s ''kraken'' 1500000100 A_BTC 1 200 True =
       Inr (Some (fifo_info (settings ?s) 1500000100 1 (pending ?s A_BTC)), self')"
    and p': "pending self' A_BTC = fifo_pending 1 (pending ?s A_BTC)"
    and u': "used self' A_BTC = used ?s A_BTC @ fifo_used 1 (pending ?s A_BTC)"
    and s': "spent self' A_BTC = spent ?s A_BTC @
       [\<lparr>spend_timestamp = 1500000100, spend_location = ''kraken'',
         spend_amount = 1, spend_rate = 200\<rparr>]"
    by blast
  have 1: "pending self' A_BTC = []"
    unfolding p' p by (simp add: fifo_pending_def k del: fifo_stop.simps)
  have 2: "used self' A_BTC = [\<lparr>event = example_event A_BTC 1500000000 1 100, remaining_amount = 0\<rparr>]"
  proof -
    have "fifo_used 1 [?lot] = [used_up ?lot]"
      by (simp add: fifo_used_def k del: fifo_stop.simps)
    then show ?thesis
      unfolding u' p
      by (simp add: used_up_def obtain_asset_ledger new_AssetAcquisitionEvent_def)
  qed
  have 3: "spent self' A_BTC =
       [\<lparr>spend_timestamp = 1500000100, spend_location = ''kraken'',
         spend_amount = 1, spend_rate = 200\<rparr>]"
    unfolding s' by (simp add: obtain_asset_ledger)
  have 4: "fst (get_calculated_asset_amount self' A_BTC) = None"
    using C9_calculated_asset_amount[of self' A_BTC] 1 by simp
  have 5: "fst (get_calculated_asset_amount ?s A_BTC) = Some 1"
    using C9_calculated_asset_amount[of ?s A_BTC]
    unfolding p by (simp add: new_AssetAcquisitionEvent_def example_event_def)
  from res 2 3 4 5 show ?thesis by blast
qed

text \<open>
  C10, with the conditions on the lots that it needs. When the spend is the sum of the
  remaining amounts of the first pending lots, none of which holds a negative amount, and
  a further lot holding a positive amount is pending after them, the matched entries are
  one entry per lot used up, with its whole remaining amount, followed by one entry of
  amount zero for the first lot not used up; that lot is the head of the pending lots with
  its remaining amount unchanged. The source enforces neither condition:
  \<^verbatim>\<open>obtain_asset\<close> takes any amount.
\<close>

theorem C10_zero_amount_entry:
  assumes "pending self asset = consumed @ lot # rest"
    and "\<forall>a\<in>set consumed. 0 \<le> remaining_amount a" "0 < remaining_amount lot"
  shows "\<exists>info self'.
     calculate_spend_cost_basis self (total_remaining consumed) asset timestamp = Inr (info, self') \<and>
     matched_acquisitions info =
       map (\<lambda>a. \<lparr>m_amount = remaining_amount a, m_event = a\<lparr>remaining_amount := 0\<rparr>\<rparr>) consumed @
       [\<lparr>m_amount = 0, m_event = lot\<rparr>] \<and>
     pending self' asset = lot # rest"
proof -
  let ?amt = "total_remaining consumed"
  let ?lots = "consumed @ lot # rest"
  have k: "fifo_stop ?amt ?lots = length consumed" by (rule fifo_stop_prefix[OF assms(2,3)])
  have ne: "?lots \<noteq> []" by simp
  from calculate_spend_cost_basis_fifo[OF assms(1) ne, of ?amt timestamp]
  obtain self' where
    "calculate_spend_cost_basis self ?amt asset timestamp = Inr (fifo_info (settings self) timestamp ?amt ?lots, self')"
    "pending self' asset = fifo_pending ?amt ?lots"
    by auto
  moreover have "map full_match consumed =
      map (\<lambda>a. \<lparr>m_amount = remaining_amount a, m_event = a\<lparr>remaining_amount := 0\<rparr>\<rparr>) consumed"
    by (simp add: full_match_def)
  ultimately show ?thesis
    by (simp add: fifo_info_def fifo_pending_def fifo_matches_def k)
qed

theorem C10_zero_amount_entry_witness:
  "\<exists>info self'.
     calculate_spend_cost_basis
       (obtain_asset (obtain_asset (new_CostBasisCalculator example_settings)
          (example_event A_ETH 1500000000 2 100))
          (example_event A_ETH 1500000100 5 110))
       2 A_ETH 1500000300 = Inr (info, self') \<and>
     matched_acquisitions info =
       [\<lparr>m_amount = 2, m_event = \<lparr>event = example_event A_ETH 1500000000 2 100, remaining_amount = 0\<rparr>\<rparr>,
        \<lparr>m_amount = 0, m_event = \<lparr>event = example_event A_ETH 1500000100 5 110, remaining_amount = 5\<rparr>\<rparr>] \<and>
     pending self' A_ETH = [\<lparr>event = example_event A_ETH 1500000100 5 110, remaining_amount = 5\<rparr>]"
proof -
  let ?l1 = "new_AssetAcquisitionEvent (example_event A_ETH 1500000000 2 100)"
  let ?l2 = "new_AssetAcquisitionEvent (example_event A_ETH 1500000100 5 110)"
  let ?s = "obtain_asset (obtain_asset (new_CostBasisCalculator example_settings)
          (example_event A_ETH 1500000000 2 100))
          (example_event A_ETH 1500000100 5 110)"
  have h1: "pending ?s A_ETH = [?l1] @ ?l2 # []"
    by (simp add: obtain_asset_ledger example_event_def)
  have h2: "\<forall>a\<in>set [?l1]. 0 \<le> remaining_amount a" "0 < remaining_amount ?l2"
    by (simp_all add: new_AssetAcquisitionEvent_def example_event_def)
  have t: "total_remaining [?l1] = 2"
    by (simp add: new_AssetAcquisitionEvent_def example_event_def)
  from C10_zero_amount_entry[OF h1 h2, of 1500000300] show ?thesis
    unfolding t by (auto simp add: new_AssetAcquisitionEvent_def example_event_def)
qed

text \<open>
  The conditions on the lots cannot be dropped. With pending lots of 2 and 0 and a spend
  of 2, the lot after the first is taken by the whole-lot branch and no lot stays pending.
  With pending lots of 5, -5 and 3 and a spend of 0, which is the sum of the first two,
  the scan stops at the first lot: the only matched entry is the one of amount zero for
  the first lot.
\<close>

theorem C10_zero_amount_entry_counterexample:
  "pending_after A_ETH
     (calculate_spend_cost_basis
        (obtain_asset (obtain_asset (new_CostBasisCalculator example_settings)
           (example_event A_ETH 1500000000 2 100))
           (example_event A_ETH 1500000100 0 110))
        2 A_ETH 1500000300) = Some [] \<and>
   map_option matched_acquisitions (returned
     (calculate_spend_cost_basis
        (obtain_asset (obtain_asset (obtain_asset (new_CostBasisCalculator example_settings)
           (example_event A_ETH 1500000000 5 100))
           (example_event A_ETH 1500000100 (-5) 110))
           (example_event A_ETH 1500000200 3 120))
        0 A_ETH 1500000300)) =
     Some [\<lparr>m_amount = 0,
            m_event = \<lparr>event = example_event A_ETH 1500000000 5 100, remaining_amount = 5\<rparr>\<rparr>]"
proof -
  let ?a1 = "new_AssetAcquisitionEvent (example_event A_ETH 1500000000 2 100)"
  let ?a2 = "new_AssetAcquisitionEvent (example_event A_ETH 1500000100 0 110)"
  let ?s = "obtain_asset (obtain_asset (new_CostBasisCalculator example_settings)
           (example_event A_ETH 1500000000 2 100))
           (example_event A_ETH 1500000100 0 110)"
  let ?b1 = "new_AssetAcquisitionEvent (example_event A_ETH 1500000000 5 100)"
  let ?b2 = "new_AssetAcquisitionEvent (example_event A_ETH 1500000100 (-5) 110)"
  let ?b3 = "new_AssetAcquisitionEvent (example_event A_ETH 1500000200 3 120)"
  let ?t = "obtain_asset (obtain_asset (obtain_asset (new_CostBasisCalculator example_settings)
           (example_event A_ETH 1500000000 5 100))
           (example_event A_ETH 1500000100 (-5) 110))
           (example_event A_ETH 1500000200 3 120)"
  have p: "pending ?s A_ETH = [?a1, ?a2]"
    by (simp add: obtain_asset_ledger example_event_def)
  have ne: "pending ?s A_ETH \<noteq> []" unfolding p by simp
  have k: "fifo_stop 2 [?a1, ?a2] = 2" by simp
  have 1: "pending_after A_ETH (calculate_spend_cost_basis ?s 2 A_ETH 1500000300) = Some []"
    unfolding calculate_spend_cost_basis_after(2)[OF ne] p
    by (simp add: fifo_pending_def k del: fifo_stop.simps)
  have q: "pending ?t A_ETH = [?b1, ?b2, ?b3]"
    by (simp add: obtain_asset_ledger example_event_def)
  have ne': "pending ?t A_ETH \<noteq> []" unfolding q by simp
  have k': "fifo_stop 0 [?b1, ?b2, ?b3] = 0" by simp
  have ms: "fifo_matches 0 [?b1, ?b2, ?b3] = [\<lparr>m_amount = 0, m_event = ?b1\<lparr>remaining_amount := 5\<rparr>\<rparr>]"
    by (simp add: fifo_matches_def k' del: fifo_stop.simps)
  have 2: "map_option matched_acquisitions
       (returned (calculate_spend_cost_basis ?t 0 A_ETH 1500000300)) =
     Some [\<lparr>m_amount = 0,
            m_event = \<lparr>event = example_event A_ETH 1500000000 5 100, remaining_amount = 5\<rparr>\<rparr>]"
  proof -
    have "map_option matched_acquisitions
        (returned (calculate_spend_cost_basis ?t 0 A_ETH 1500000300)) =
      Some (fifo_matches 0 [?b1, ?b2, ?b3])"
      unfolding calculate_spend_cost_basis_after(1)[OF ne'] q by (simp add: fifo_info_def)
    then show ?thesis unfolding ms by (simp add: new_AssetAcquisitionEvent_def)
  qed
  from 1 2 show ?thesis by (intro conjI)
qed

end
